theory Spec2Isabelle
  imports Main "HOL-Library.Sublist" "HOL-Library.Char_ord" "HOL-Library.List_Lexorder"
begin

section \<open>Paths: the part of path/filepath that the driver calls (Unix)\<close>

text \<open>
  The driver builds every path with \<open>filepath.Join\<close> and \<open>filepath.Clean\<close> and then appends
  the suffixes \<open>.json\<close> and \<open>.tmp\<close> by plain string concatenation. Paths are strings, as in the
  source; a path is cut into its elements at every \<open>/\<close>.
\<close>

fun split_path :: "string \<Rightarrow> string list" where
  "split_path [] = [[]]"
| "split_path (c # cs) =
     (if c = CHR ''/'' then [] # split_path cs
      else (case split_path cs of [] \<Rightarrow> [[c]] | x # xs \<Rightarrow> (c # x) # xs))"

text \<open>\<open>strings.Join(elems, "/")\<close>.\<close>

fun join_sep :: "string list \<Rightarrow> string" where
  "join_sep [] = []"
| "join_sep [x] = x"
| "join_sep (x # y # ys) = x @ ''/'' @ join_sep (y # ys)"

definition rooted :: "string \<Rightarrow> bool" where
  "rooted p = (case p of [] \<Rightarrow> False | c # _ \<Rightarrow> c = CHR ''/'')"

text \<open>
  One element of \<open>Clean\<close>'s scan. The output built so far is kept as a stack of elements, the
  last one first. An empty element and \<open>.\<close> are dropped; \<open>..\<close> removes the last real element
  when there is one, is dropped at the top of a rooted path, and is kept otherwise.
\<close>

definition clean_step :: "bool \<Rightarrow> string list \<Rightarrow> string \<Rightarrow> string list" where
  "clean_step r st c =
     (if c = [] \<or> c = ''.'' then st
      else if c = ''..'' then
        (if st \<noteq> [] \<and> hd st \<noteq> ''..'' then tl st
         else if \<not> r then ''..'' # st
         else st)
      else c # st)"

definition clean_elems :: "string \<Rightarrow> string list" where
  "clean_elems p = rev (foldl (clean_step (rooted p)) [] (split_path p))"

definition Clean :: "string \<Rightarrow> string" where
  "Clean p =
     (if rooted p then CHR ''/'' # join_sep (clean_elems p)
      else if clean_elems p = [] then ''.''
      else join_sep (clean_elems p))"

text \<open>
  \<open>filepath.Join\<close>: the elements from the first non-empty one on are joined with \<open>/\<close> and
  cleaned; when every element is empty the result is the empty string.
\<close>

definition Join :: "string list \<Rightarrow> string" where
  "Join elems =
     (case dropWhile (\<lambda>e. e = []) elems of
        [] \<Rightarrow> []
      | xs \<Rightarrow> Clean (join_sep xs))"

section \<open>The file system the driver runs on\<close>

text \<open>
  The state of the file system is a table from absolute element lists to entries, the
  working directory of the process, and the capacity of the device. An entry is a regular
  file with its content or a directory. The root directory \<open>[]\<close> always exists. The
  contents of all files together take no more bytes than the capacity; \<open>None\<close> is a device
  without a limit. Symbolic links and permissions are not part of the model: an operation
  fails for a reason that the shape of the tree gives (a missing entry, a file where a
  directory is needed, a directory where a file is needed), and a write fails when the
  device is full.
\<close>

datatype entry = File string | Dir

type_synonym key = "string list"

record filesys =
  entries :: "(key \<times> entry) list"
  cwd :: key
  capacity :: "nat option"

datatype errno = ENOENT | ENOTDIR | EISDIR | EEXIST | EINVAL | ENOTEMPTY | EBUSY | ENOSPC

definition lookup :: "filesys \<Rightarrow> key \<Rightarrow> entry option" where
  "lookup fs k = (if k = [] then Some Dir else map_of (entries fs) k)"

fun put_entry :: "key \<Rightarrow> entry \<Rightarrow> (key \<times> entry) list \<Rightarrow> (key \<times> entry) list" where
  "put_entry k e [] = [(k, e)]"
| "put_entry k e (x # xs) = (if fst x = k then (k, e) # xs else x # put_entry k e xs)"

definition put :: "filesys \<Rightarrow> key \<Rightarrow> entry \<Rightarrow> filesys" where
  "put fs k e = fs\<lparr>entries := put_entry k e (entries fs)\<rparr>"

text \<open>
  The bytes in use, and how many of the \<open>n\<close> bytes of a write the device takes before it is
  full.
\<close>

definition used :: "filesys \<Rightarrow> nat" where
  "used fs = sum_list (map (\<lambda>x. case snd x of File b \<Rightarrow> length b | Dir \<Rightarrow> 0) (entries fs))"

definition accepted :: "filesys \<Rightarrow> nat \<Rightarrow> nat" where
  "accepted fs n = (case capacity fs of None \<Rightarrow> n | Some cap \<Rightarrow> min n (cap - used fs))"

definition remove_one :: "filesys \<Rightarrow> key \<Rightarrow> filesys" where
  "remove_one fs k = fs\<lparr>entries := filter (\<lambda>x. fst x \<noteq> k) (entries fs)\<rparr>"

definition remove_tree :: "filesys \<Rightarrow> key \<Rightarrow> filesys" where
  "remove_tree fs k = fs\<lparr>entries := filter (\<lambda>x. \<not> prefix k (fst x)) (entries fs)\<rparr>"

definition remove_below :: "filesys \<Rightarrow> key \<Rightarrow> filesys" where
  "remove_below fs k = fs\<lparr>entries := filter (\<lambda>x. \<not> strict_prefix k (fst x)) (entries fs)\<rparr>"

definition move_tree :: "filesys \<Rightarrow> key \<Rightarrow> key \<Rightarrow> filesys" where
  "move_tree fs ko kn =
     fs\<lparr>entries :=
          map (\<lambda>x. if prefix ko (fst x) then (kn @ drop (length ko) (fst x), snd x) else x)
            (filter (\<lambda>x. \<not> prefix kn (fst x)) (entries fs))\<rparr>"

text \<open>The names in a directory, as \<open>ioutil.ReadDir\<close> returns them: sorted by name.\<close>

definition dir_names :: "filesys \<Rightarrow> key \<Rightarrow> string list" where
  "dir_names fs k =
     sort (remdups (map (\<lambda>x. last (fst x))
       (filter (\<lambda>x. fst x \<noteq> [] \<and> butlast (fst x) = k) (entries fs))))"

text \<open>
  Name resolution. \<open>walk\<close> follows the elements of a path from a starting directory. Before
  each element the current position must be a directory; an empty element and \<open>.\<close> stay,
  \<open>..\<close> goes to the parent, a name goes to that child. The position after the last element
  is returned without a check: the caller looks it up.
\<close>

fun walk :: "filesys \<Rightarrow> key \<Rightarrow> string list \<Rightarrow> errno + key" where
  "walk fs cur [] = Inr cur"
| "walk fs cur (c # cs) =
     (case lookup fs cur of
        None \<Rightarrow> Inl ENOENT
      | Some (File _) \<Rightarrow> Inl ENOTDIR
      | Some Dir \<Rightarrow>
          if c = [] \<or> c = ''.'' then walk fs cur cs
          else if c = ''..'' then walk fs (butlast cur) cs
          else walk fs (cur @ [c]) cs)"

definition start_dir :: "filesys \<Rightarrow> string \<Rightarrow> key" where
  "start_dir fs p = (if rooted p then [] else cwd fs)"

definition resolve :: "filesys \<Rightarrow> string \<Rightarrow> errno + key" where
  "resolve fs p = (if p = [] then Inl ENOENT else walk fs (start_dir fs p) (split_path p))"

section \<open>Errors and the operating-system calls\<close>

datatype error =
    Errorf string
  | PathError string string errno
  | LinkError string string string errno
  | MarshalError
  | UnmarshalError

datatype fmode = ModeDir | ModeRegular

definition os_Stat :: "filesys \<Rightarrow> string \<Rightarrow> error + fmode" where
  "os_Stat fs p =
     (case resolve fs p of
        Inl e \<Rightarrow> Inl (PathError ''stat'' p e)
      | Inr k \<Rightarrow>
          (case lookup fs k of
             None \<Rightarrow> Inl (PathError ''stat'' p ENOENT)
           | Some (File _) \<Rightarrow> Inr ModeRegular
           | Some Dir \<Rightarrow> Inr ModeDir))"

fun IsNotExist :: "error \<Rightarrow> bool" where
  "IsNotExist (PathError _ _ e) = (e = ENOENT)"
| "IsNotExist (LinkError _ _ _ e) = (e = ENOENT)"
| "IsNotExist _ = False"

definition os_ReadFile :: "filesys \<Rightarrow> string \<Rightarrow> error + string" where
  "os_ReadFile fs p =
     (case resolve fs p of
        Inl e \<Rightarrow> Inl (PathError ''open'' p e)
      | Inr k \<Rightarrow>
          (case lookup fs k of
             None \<Rightarrow> Inl (PathError ''open'' p ENOENT)
           | Some (File b) \<Rightarrow> Inr b
           | Some Dir \<Rightarrow> Inl (PathError ''read'' p EISDIR)))"

definition os_ReadDir :: "filesys \<Rightarrow> string \<Rightarrow> error + string list" where
  "os_ReadDir fs p =
     (case resolve fs p of
        Inl e \<Rightarrow> Inl (PathError ''open'' p e)
      | Inr k \<Rightarrow>
          (case lookup fs k of
             None \<Rightarrow> Inl (PathError ''open'' p ENOENT)
           | Some (File _) \<Rightarrow> Inl (PathError ''readdirent'' p ENOTDIR)
           | Some Dir \<Rightarrow> Inr (dir_names fs k)))"

text \<open>
  \<open>os.WriteFile\<close> opens the file with \<open>O_WRONLY|O_CREATE|O_TRUNC\<close>, writes the data and
  closes the file. When the open fails nothing has changed. After the open the file exists
  and is empty, whatever it held before; the write then stores the data, and when the
  device is full it stores the bytes that fit and fails with \<open>ENOSPC\<close>: the file stays, with
  a part of the data.
\<close>

definition os_WriteFile :: "filesys \<Rightarrow> string \<Rightarrow> string \<Rightarrow> error option \<times> filesys" where
  "os_WriteFile fs p b =
     (case resolve fs p of
        Inl e \<Rightarrow> (Some (PathError ''open'' p e), fs)
      | Inr k \<Rightarrow>
          (case lookup fs k of
             Some Dir \<Rightarrow> (Some (PathError ''open'' p EISDIR), fs)
           | _ \<Rightarrow>
               (let fs0 = put fs k (File []);
                    n = accepted fs0 (length b)
                in if n < length b
                   then (Some (PathError ''write'' p ENOSPC), put fs0 k (File (take n b)))
                   else (None, put fs0 k (File b)))))"

definition os_Mkdir :: "filesys \<Rightarrow> string \<Rightarrow> error option \<times> filesys" where
  "os_Mkdir fs p =
     (case resolve fs p of
        Inl e \<Rightarrow> (Some (PathError ''mkdir'' p e), fs)
      | Inr k \<Rightarrow>
          (case lookup fs k of
             None \<Rightarrow> (None, put fs k Dir)
           | Some _ \<Rightarrow> (Some (PathError ''mkdir'' p EEXIST), fs)))"

text \<open>
  \<open>os.MkdirAll\<close> creates the directory and every missing parent. It fails, with
  \<open>ENOTDIR\<close>, when an element of the path exists and is not a directory.
\<close>

definition ensure_dir :: "filesys \<Rightarrow> key \<Rightarrow> errno + filesys" where
  "ensure_dir fs k =
     (case lookup fs k of
        None \<Rightarrow> Inr (put fs k Dir)
      | Some (File _) \<Rightarrow> Inl ENOTDIR
      | Some Dir \<Rightarrow> Inr fs)"

fun mkdir_all :: "filesys \<Rightarrow> key \<Rightarrow> string list \<Rightarrow> errno option \<times> filesys" where
  "mkdir_all fs cur [] =
     (case ensure_dir fs cur of Inl e \<Rightarrow> (Some e, fs) | Inr fs' \<Rightarrow> (None, fs'))"
| "mkdir_all fs cur (c # cs) =
     (case ensure_dir fs cur of
        Inl e \<Rightarrow> (Some e, fs)
      | Inr fs' \<Rightarrow>
          if c = [] \<or> c = ''.'' then mkdir_all fs' cur cs
          else if c = ''..'' then mkdir_all fs' (butlast cur) cs
          else mkdir_all fs' (cur @ [c]) cs)"

definition os_MkdirAll :: "filesys \<Rightarrow> string \<Rightarrow> error option \<times> filesys" where
  "os_MkdirAll fs p =
     (if p = [] then (Some (PathError ''mkdir'' p ENOENT), fs)
      else
        (case lookup fs (start_dir fs p) of
           None \<Rightarrow> (Some (PathError ''mkdir'' p ENOENT), fs)
         | Some (File _) \<Rightarrow> (Some (PathError ''mkdir'' p ENOTDIR), fs)
         | Some Dir \<Rightarrow>
             (case mkdir_all fs (start_dir fs p) (split_path p) of
                (Some e, fs') \<Rightarrow> (Some (PathError ''mkdir'' p e), fs')
              | (None, fs') \<Rightarrow> (None, fs'))))"

text \<open>
  \<open>os.Rename\<close>: Go refuses a new name that is an existing directory before it calls the
  kernel. Renaming a file replaces the entry at the new name in one step; renaming a
  directory moves its subtree.
\<close>

definition os_Rename :: "filesys \<Rightarrow> string \<Rightarrow> string \<Rightarrow> error option \<times> filesys" where
  "os_Rename fs old new =
     (if os_Stat fs new = Inr ModeDir then (Some (LinkError ''rename'' old new EEXIST), fs)
      else
        (case resolve fs old of
           Inl e \<Rightarrow> (Some (LinkError ''rename'' old new e), fs)
         | Inr ko \<Rightarrow>
             (case lookup fs ko of
                None \<Rightarrow> (Some (LinkError ''rename'' old new ENOENT), fs)
              | Some eo \<Rightarrow>
                  (case resolve fs new of
                     Inl e \<Rightarrow> (Some (LinkError ''rename'' old new e), fs)
                   | Inr kn \<Rightarrow>
                       if ko = kn then (None, fs)
                       else
                         (case eo of
                            File b \<Rightarrow> (None, remove_one (put fs kn (File b)) ko)
                          | Dir \<Rightarrow>
                              if lookup fs kn \<noteq> None
                              then (Some (LinkError ''rename'' old new ENOTDIR), fs)
                              else if prefix ko kn
                              then (Some (LinkError ''rename'' old new EINVAL), fs)
                              else (None, move_tree fs ko kn))))))"

text \<open>
  \<open>os.RemoveAll\<close>: the empty path and a path that does not exist are a success; a path that
  is \<open>.\<close> or ends in \<open>/.\<close> is refused with \<open>EINVAL\<close>; a file is unlinked; a directory is
  removed with everything below it. The root directory, and a directory named through a
  final \<open>..\<close>, lose their content but cannot be removed themselves.
\<close>

definition endsWithDot :: "string \<Rightarrow> bool" where
  "endsWithDot p = (p = ''.'' \<or> (length p \<ge> 2 \<and> last p = CHR ''.'' \<and> last (butlast p) = CHR ''/''))"

definition os_RemoveAll :: "filesys \<Rightarrow> string \<Rightarrow> error option \<times> filesys" where
  "os_RemoveAll fs p =
     (if p = [] then (None, fs)
      else if endsWithDot p then (Some (PathError ''RemoveAll'' p EINVAL), fs)
      else
        (case resolve fs p of
           Inl e \<Rightarrow> (if e = ENOENT then (None, fs) else (Some (PathError ''unlinkat'' p e), fs))
         | Inr k \<Rightarrow>
             (case lookup fs k of
                None \<Rightarrow> (None, fs)
              | Some (File _) \<Rightarrow> (None, remove_one fs k)
              | Some Dir \<Rightarrow>
                  if k = [] then (Some (PathError ''unlinkat'' p EBUSY), remove_below fs k)
                  else if last (split_path p) = ''..''
                  then (Some (PathError ''unlinkat'' p ENOTEMPTY), remove_below fs k)
                  else (None, remove_tree fs k))))"

section \<open>The serializer\<close>

text \<open>
  \<open>encoding/json\<close> is not part of the repository. The driver is parametric in it:
  \<open>MarshalIndent\<close> is \<open>json.MarshalIndent(v, "", "\t")\<close> and fails on a value that cannot be
  encoded; \<open>Unmarshal b out\<close> is \<open>json.Unmarshal(b, &out)\<close>, which decodes into the slot that
  the caller passes and fails on malformed content.
\<close>

record 'v json =
  MarshalIndent :: "'v \<Rightarrow> string option"
  Unmarshal :: "string \<Rightarrow> 'v \<Rightarrow> 'v option"

section \<open>The driver\<close>

text \<open>
  The \<open>Driver\<close> struct: the root directory and the registry of the per-collection mutexes.
  A \<open>*sync.Mutex\<close> is the address of the mutex; \<open>next_mutex\<close> is the next address that
  \<open>&sync.Mutex{}\<close> allocates. \<open>lock_trace\<close> records every \<open>Lock\<close> and \<open>Unlock\<close> call in the
  order in which it is made, so that taking a lock can be observed.
\<close>

datatype mutex_ref = RegistryMutex | CollectionMutex nat

datatype lock_event = Locked mutex_ref | Unlocked mutex_ref

record Driver =
  dir :: string
  mutexes :: "string \<rightharpoonup> nat"
  next_mutex :: nat
  lock_trace :: "lock_event list"

definition trace :: "lock_event \<Rightarrow> Driver \<Rightarrow> Driver" where
  "trace ev d = d\<lparr>lock_trace := lock_trace d @ [ev]\<rparr>"

definition New :: "string \<Rightarrow> filesys \<Rightarrow> Driver \<times> error option \<times> filesys" where
  "New root fs =
     (let driver = \<lparr>dir = Clean root, mutexes = Map.empty, next_mutex = 0, lock_trace = []\<rparr>
      in case os_Stat fs (Clean root) of
           Inr _ \<Rightarrow> (driver, None, fs)
         | Inl _ \<Rightarrow> (case os_Mkdir fs (Clean root) of (err, fs') \<Rightarrow> (driver, err, fs')))"

definition GetOrCreateMutex :: "Driver \<Rightarrow> string \<Rightarrow> nat \<times> Driver" where
  "GetOrCreateMutex d collection =
     (let d1 = trace (Locked RegistryMutex) d;
          (m, d2) =
            (case mutexes d1 collection of
               Some m \<Rightarrow> (m, d1)
             | None \<Rightarrow>
                 (next_mutex d1,
                  d1\<lparr>mutexes := (mutexes d1)(collection \<mapsto> next_mutex d1),
                     next_mutex := Suc (next_mutex d1)\<rparr>))
      in (m, trace (Unlocked RegistryMutex) d2))"

text \<open>The helper \<open>stat\<close>: the path as it is, and when that does not exist, the path with \<open>.json\<close>.\<close>

definition stat :: "filesys \<Rightarrow> string \<Rightarrow> error + fmode" where
  "stat fs path =
     (case os_Stat fs path of
        Inl err \<Rightarrow> (if IsNotExist err then os_Stat fs (path @ ''.json'') else Inl err)
      | Inr fi \<Rightarrow> Inr fi)"

definition newline :: char where
  "newline = CHR 0x0A"

text \<open>The body of \<open>Write\<close> that runs while the collection's mutex is held.\<close>

definition write_locked ::
  "'v json \<Rightarrow> string \<Rightarrow> filesys \<Rightarrow> string \<Rightarrow> string \<Rightarrow> 'v \<Rightarrow> error option \<times> filesys" where
  "write_locked J root fs collection resource v =
     (let dir = Join [root, collection];
          fnlPath = Join [dir, resource @ ''.json''];
          tmpPath = fnlPath @ ''.tmp''
      in case os_MkdirAll fs dir of
           (Some err, fs1) \<Rightarrow> (Some err, fs1)
         | (None, fs1) \<Rightarrow>
             (case MarshalIndent J v of
                None \<Rightarrow> (Some MarshalError, fs1)
              | Some b \<Rightarrow>
                  (case os_WriteFile fs1 tmpPath (b @ [newline]) of
                     (Some err, fs2) \<Rightarrow> (Some err, fs2)
                   | (None, fs2) \<Rightarrow> os_Rename fs2 tmpPath fnlPath)))"

definition Write ::
  "'v json \<Rightarrow> Driver \<Rightarrow> filesys \<Rightarrow> string \<Rightarrow> string \<Rightarrow> 'v \<Rightarrow> error option \<times> Driver \<times> filesys" where
  "Write J d fs collection resource v =
     (if collection = [] then (Some (Errorf ''Missing collection - no place to save record!''), d, fs)
      else if resource = [] then
        (Some (Errorf ''Missing resource - unable to save record (no name)!''), d, fs)
      else
        (case GetOrCreateMutex d collection of
           (m, d1) \<Rightarrow>
             (case write_locked J (dir d1) fs collection resource v of
                (err, fs') \<Rightarrow>
                  (err, trace (Unlocked (CollectionMutex m)) (trace (Locked (CollectionMutex m)) d1),
                   fs'))))"

definition Read :: "'v json \<Rightarrow> Driver \<Rightarrow> filesys \<Rightarrow> string \<Rightarrow> string \<Rightarrow> 'v \<Rightarrow> error + 'v" where
  "Read J d fs collection resource v =
     (if collection = [] then Inl (Errorf ''Missing collection - unable to read!'')
      else if resource = [] then Inl (Errorf ''Missing resource - unable to read record!'')
      else
        (let record = Join [dir d, collection, resource]
         in case stat fs record of
              Inl err \<Rightarrow> Inl err
            | Inr _ \<Rightarrow>
                (case os_ReadFile fs (record @ ''.json'') of
                   Inl err \<Rightarrow> Inl err
                 | Inr b \<Rightarrow>
                     (case Unmarshal J b v of
                        None \<Rightarrow> Inl UnmarshalError
                      | Some v' \<Rightarrow> Inr v'))))"

text \<open>The loop of \<open>ReadAll\<close> over the listed names; the first file that cannot be read ends it.\<close>

fun read_files :: "filesys \<Rightarrow> string \<Rightarrow> string list \<Rightarrow> string list \<Rightarrow> error + string list" where
  "read_files fs dirpath [] records = Inr records"
| "read_files fs dirpath (name # files) records =
     (case os_ReadFile fs (Join [dirpath, name]) of
        Inl err \<Rightarrow> Inl err
      | Inr b \<Rightarrow> read_files fs dirpath files (records @ [b]))"

definition ReadAll :: "Driver \<Rightarrow> filesys \<Rightarrow> string \<Rightarrow> error + string list" where
  "ReadAll d fs collection =
     (if collection = [] then Inl (Errorf ''Missing collection - unable to read'')
      else
        (let dir = Join [dir d, collection]
         in case stat fs dir of
              Inl err \<Rightarrow> Inl err
            | Inr _ \<Rightarrow>
                (let files = (case os_ReadDir fs dir of Inl _ \<Rightarrow> [] | Inr names \<Rightarrow> names)
                 in read_files fs dir files [])))"

text \<open>The body of \<open>Delete\<close> that runs while the collection's mutex is held.\<close>

definition delete_locked :: "string \<Rightarrow> filesys \<Rightarrow> string \<Rightarrow> error option \<times> filesys" where
  "delete_locked root fs path =
     (let dir = Join [root, path]
      in case stat fs dir of
           Inl _ \<Rightarrow>
             (Some (Errorf (''unable to find file or directory named '' @ path @ [newline])), fs)
         | Inr ModeDir \<Rightarrow> os_RemoveAll fs dir
         | Inr ModeRegular \<Rightarrow> os_RemoveAll fs (dir @ ''.json''))"

definition Delete ::
  "Driver \<Rightarrow> filesys \<Rightarrow> string \<Rightarrow> string \<Rightarrow> error option \<times> Driver \<times> filesys" where
  "Delete d fs collection resource =
     (let path = Join [collection, resource]
      in case GetOrCreateMutex d collection of
           (m, d1) \<Rightarrow>
             (case delete_locked (dir d1) fs path of
                (err, fs') \<Rightarrow>
                  (err, trace (Unlocked (CollectionMutex m)) (trace (Locked (CollectionMutex m)) d1),
                   fs')))"

text \<open>
  The error classes of the specification. A validation error is one of the five
  \<open>fmt.Errorf\<close> messages for a missing name; a not-found error is an error that
  \<open>os.IsNotExist\<close> accepts, or the message of \<open>Delete\<close> for a target that \<open>stat\<close> cannot find.
\<close>

definition ValidationError :: "error \<Rightarrow> bool" where
  "ValidationError e =
     (e \<in> set [Errorf ''Missing collection - no place to save record!'',
               Errorf ''Missing resource - unable to save record (no name)!'',
               Errorf ''Missing collection - unable to read!'',
               Errorf ''Missing resource - unable to read record!'',
               Errorf ''Missing collection - unable to read''])"

definition NotFoundError :: "error \<Rightarrow> bool" where
  "NotFoundError e =
     (case e of
        Errorf msg \<Rightarrow> prefix ''unable to find file or directory named '' msg
      | _ \<Rightarrow> IsNotExist e)"

section \<open>A running example: the database of \<open>main\<close>\<close>

text \<open>
  \<open>main\<close> opens the database in \<open>./\<close>. The example process runs in \<open>/home/app\<close>; its values
  are booleans, encoded as the JSON literals \<open>true\<close> and \<open>false\<close>.
\<close>

definition demo_fs :: filesys where
  "demo_fs =
     \<lparr>entries = [([''home''], Dir), ([''home'', ''app''], Dir)], cwd = [''home'', ''app''],
      capacity = None\<rparr>"

definition demo_json :: "bool json" where
  "demo_json =
     \<lparr>MarshalIndent = (\<lambda>b. Some (if b then ''true'' else ''false'')),
      Unmarshal = (\<lambda>s out.
        if s = ''true'' @ [newline] then Some True
        else if s = ''false'' @ [newline] then Some False
        else None)\<rparr>"

definition demo_driver :: Driver where
  "demo_driver = \<lparr>dir = ''.'', mutexes = Map.empty, next_mutex = 0, lock_trace = []\<rparr>"

text \<open>The file system after \<open>Write("users", "John", true)\<close>, and the driver after it.\<close>

definition demo_fs1 :: filesys where
  "demo_fs1 =
     \<lparr>entries =
        [([''home''], Dir), ([''home'', ''app''], Dir), ([''home'', ''app'', ''users''], Dir),
         ([''home'', ''app'', ''users'', ''John.json''], File ''true\<newline>'')],
      cwd = [''home'', ''app''], capacity = None\<rparr>"

definition demo_driver1 :: Driver where
  "demo_driver1 =
     \<lparr>dir = ''.'', mutexes = [''users'' \<mapsto> 0], next_mutex = 1,
      lock_trace =
        [Locked RegistryMutex, Unlocked RegistryMutex,
         Locked (CollectionMutex 0), Unlocked (CollectionMutex 0)]\<rparr>"

text \<open>A file system in which \<open>users.json\<close> is a file of the root and there is no collection.\<close>

definition demo_fs2 :: filesys where
  "demo_fs2 =
     \<lparr>entries =
        [([''home''], Dir), ([''home'', ''app''], Dir),
         ([''home'', ''app'', ''users.json''], File ''true\<newline>'')],
      cwd = [''home'', ''app''], capacity = None\<rparr>"

text \<open>
  The example database with a directory in the place of the temporary file of John, and
  the example database on a device that holds eight bytes, five of them in use.
\<close>

definition demo_fs3 :: filesys where
  "demo_fs3 =
     \<lparr>entries =
        [([''home''], Dir), ([''home'', ''app''], Dir), ([''home'', ''app'', ''users''], Dir),
         ([''home'', ''app'', ''users'', ''John.json''], File ''true\<newline>''),
         ([''home'', ''app'', ''users'', ''John.json.tmp''], Dir)],
      cwd = [''home'', ''app''], capacity = None\<rparr>"

definition demo_fs8 :: filesys where
  "demo_fs8 = demo_fs1\<lparr>capacity := Some 8\<rparr>"

text \<open>
  Further example file systems: a directory \<open>John\<close> beside the record of John; a collection
  directory \<open>x\<close> beside the working directory; a directory whose name ends in \<open>.json\<close>; a
  collection with two records; and a database in the subdirectory \<open>db\<close>, with its driver.
\<close>

definition demo_fs4 :: filesys where
  "demo_fs4 =
     \<lparr>entries =
        [([''home''], Dir), ([''home'', ''app''], Dir), ([''home'', ''app'', ''users''], Dir),
         ([''home'', ''app'', ''users'', ''John.json''], File ''true\<newline>''),
         ([''home'', ''app'', ''users'', ''John''], Dir)],
      cwd = [''home'', ''app''], capacity = None\<rparr>"

definition demo_fs5 :: filesys where
  "demo_fs5 =
     \<lparr>entries =
        [([''home''], Dir), ([''home'', ''app''], Dir), ([''home'', ''x''], Dir),
         ([''home'', ''x'', ''a.json''], File ''true\<newline>'')],
      cwd = [''home'', ''app''], capacity = None\<rparr>"

definition demo_fs6 :: filesys where
  "demo_fs6 =
     \<lparr>entries =
        [([''home''], Dir), ([''home'', ''app''], Dir), ([''home'', ''app'', ''orders.json''], Dir),
         ([''home'', ''app'', ''orders.json'', ''o1.json''], File ''false\<newline>'')],
      cwd = [''home'', ''app''], capacity = None\<rparr>"


definition demo_db_driver :: Driver where
  "demo_db_driver = \<lparr>dir = ''db'', mutexes = Map.empty, next_mutex = 0, lock_trace = []\<rparr>"

definition demo_db_fs :: filesys where
  "demo_db_fs =
     \<lparr>entries =
        [([''home''], Dir), ([''home'', ''app''], Dir), ([''home'', ''app'', ''db''], Dir),
         ([''home'', ''app'', ''db'', ''users''], Dir),
         ([''home'', ''app'', ''db'', ''users'', ''John.json''], File ''true\<newline>'')],
      cwd = [''home'', ''app''], capacity = None\<rparr>"

section \<open>Notions used in the statements\<close>

text \<open>
  An element of a path is a name when it is not empty, not \<open>.\<close> and not \<open>..\<close>; a string
  has no separator when it contains no \<open>/\<close>.
\<close>

definition noslash :: "string \<Rightarrow> bool" where
  "noslash x = (CHR ''/'' \<notin> set x)"

definition name_elem :: "string \<Rightarrow> bool" where
  "name_elem x = (x \<noteq> [] \<and> x \<noteq> ''.'' \<and> x \<noteq> ''..'')"

text \<open>
  The stacks that the scan of \<open>Clean\<close> can reach: no empty element and no \<open>.\<close>; in a rooted
  path no \<open>..\<close>, in a relative path \<open>..\<close> only below other \<open>..\<close>.
\<close>

fun normal_stack :: "bool \<Rightarrow> string list \<Rightarrow> bool" where
  "normal_stack r [] = True"
| "normal_stack r (x # xs) =
     (x \<noteq> [] \<and> x \<noteq> ''.'' \<and> (x = ''..'' \<longrightarrow> \<not> r \<and> (\<forall>y \<in> set xs. y = ''..'')) \<and>
      normal_stack r xs)"

text \<open>The directory of a collection as \<open>Join\<close> receives it, before cleaning.\<close>

definition raw_dir :: "string \<Rightarrow> string \<Rightarrow> string" where
  "raw_dir root c = (if root = [] then c else root @ CHR ''/'' # c)"

text \<open>
  Two ways in which a later file system extends an earlier one: every directory is still a
  directory; every entry is still there with its content.
\<close>

definition keeps_dirs :: "filesys \<Rightarrow> filesys \<Rightarrow> bool" where
  "keeps_dirs fs fs' =
     (cwd fs' = cwd fs \<and> (\<forall>q. lookup fs q = Some Dir \<longrightarrow> lookup fs' q = Some Dir))"

definition keeps_all :: "filesys \<Rightarrow> filesys \<Rightarrow> bool" where
  "keeps_all fs fs' =
     (cwd fs' = cwd fs \<and> (\<forall>q e. lookup fs q = Some e \<longrightarrow> lookup fs' q = Some e))"

text \<open>
  The errors of \<open>os.Rename\<close> are \<open>*os.LinkError\<close> values, and no other call of \<open>Write\<close>
  returns one: a failed \<open>Write\<close> failed in the rename exactly when its error is one.
\<close>

definition rename_failed :: "error \<Rightarrow> bool" where
  "rename_failed e = (case e of LinkError _ _ _ _ \<Rightarrow> True | _ \<Rightarrow> False)"



section \<open>The mutex registry\<close>

lemma GetOrCreateMutex_present:
  "mutexes d c = Some m \<Longrightarrow>
   GetOrCreateMutex d c = (m, trace (Unlocked RegistryMutex) (trace (Locked RegistryMutex) d))"
  by (simp add: GetOrCreateMutex_def trace_def Let_def)

lemma GetOrCreateMutex_absent:
  "mutexes d c = None \<Longrightarrow>
   GetOrCreateMutex d c =
     (next_mutex d,
      trace (Unlocked RegistryMutex)
        ((trace (Locked RegistryMutex) d)
           \<lparr>mutexes := (mutexes d)(c \<mapsto> next_mutex d), next_mutex := Suc (next_mutex d)\<rparr>))"
  by (simp add: GetOrCreateMutex_def trace_def Let_def)

lemma GetOrCreateMutex_result:
  "mutexes (snd (GetOrCreateMutex d c)) c = Some (fst (GetOrCreateMutex d c))"
  by (cases "mutexes d c") (simp_all add: GetOrCreateMutex_present GetOrCreateMutex_absent trace_def)

lemma GetOrCreateMutex_keeps:
  "mutexes d c' = Some m \<Longrightarrow> mutexes (snd (GetOrCreateMutex d c)) c' = Some m"
  by (cases "mutexes d c")
     (auto simp add: GetOrCreateMutex_present GetOrCreateMutex_absent trace_def)

lemma GetOrCreateMutex_dir [simp]: "dir (snd (GetOrCreateMutex d c)) = dir d"
  by (cases "mutexes d c") (simp_all add: GetOrCreateMutex_present GetOrCreateMutex_absent trace_def)

lemma mutexes_trace [simp]: "mutexes (trace ev d) = mutexes d"
  by (simp add: trace_def)

lemma Write_driver:
  "fst (snd (Write J d fs c r v)) = d \<or>
   (\<exists>m. fst (snd (Write J d fs c r v)) =
      trace (Unlocked (CollectionMutex m)) (trace (Locked (CollectionMutex m))
        (snd (GetOrCreateMutex d c))))"
  by (auto simp add: Write_def split: prod.splits)

lemma Delete_driver:
  "\<exists>m. fst (snd (Delete d fs c r)) =
      trace (Unlocked (CollectionMutex m)) (trace (Locked (CollectionMutex m))
        (snd (GetOrCreateMutex d c)))"
  by (auto simp add: Delete_def Let_def split: prod.splits)

lemma Write_keeps:
  "mutexes d c' = Some m \<Longrightarrow> mutexes (fst (snd (Write J d fs c r v))) c' = Some m"
  using Write_driver [of J d fs c r v] by (auto simp add: GetOrCreateMutex_keeps)

lemma Delete_keeps:
  "mutexes d c' = Some m \<Longrightarrow> mutexes (fst (snd (Delete d fs c r))) c' = Some m"
  using Delete_driver [of d fs c r] by (auto simp add: GetOrCreateMutex_keeps)

text \<open>
  C8. The registry holds one mutex per collection name and never loses an entry:
  \<open>GetOrCreateMutex\<close> returns the mutex that the registry holds for the name once the call is
  over; a name that has a mutex gets that same mutex from every later call, and the call
  leaves the registry as it is; and an entry survives every call of \<open>GetOrCreateMutex\<close>,
  \<open>Write\<close> and \<open>Delete\<close>, for whatever collection. (\<open>Read\<close> and \<open>ReadAll\<close> do not touch the
  driver.)
\<close>

theorem mutex_registry_stable:
  "mutexes (snd (GetOrCreateMutex d c)) c = Some (fst (GetOrCreateMutex d c)) \<and>
   (mutexes d c = Some m \<longrightarrow>
      fst (GetOrCreateMutex d c) = m \<and> mutexes (snd (GetOrCreateMutex d c)) = mutexes d) \<and>
   (mutexes d c = Some m \<longrightarrow>
      mutexes (snd (GetOrCreateMutex d c')) c = Some m \<and>
      mutexes (fst (snd (Write J d fs c' r v))) c = Some m \<and>
      mutexes (fst (snd (Delete d fs c' r))) c = Some m)"
  by (simp add: GetOrCreateMutex_result GetOrCreateMutex_keeps Write_keeps Delete_keeps
      GetOrCreateMutex_present)

theorem mutex_registry_stable_witness:
  "mutexes demo_driver1 ''users'' = Some 0 \<and>
   fst (GetOrCreateMutex demo_driver1 ''users'') = 0 \<and>
   mutexes (snd (GetOrCreateMutex demo_driver1 ''users'')) = mutexes demo_driver1 \<and>
   mutexes (snd (GetOrCreateMutex demo_driver1 ''orders'')) ''users'' = Some 0 \<and>
   mutexes (fst (snd (Write demo_json demo_driver1 demo_fs1 ''orders'' ''o1'' False))) ''users''
     = Some 0 \<and>
   mutexes (fst (snd (Delete demo_driver1 demo_fs1 ''orders'' ''o1''))) ''users'' = Some 0"
proof -
  have h: "mutexes demo_driver1 ''users'' = Some 0"
    by code_simp
  show ?thesis
    using h mutex_registry_stable
      [of demo_driver1 "''users''" 0 "''orders''" demo_json demo_fs1 "''o1''" False]
    by simp
qed

section \<open>Validation of the names\<close>

text \<open>
  C1, as the code has it. \<open>Write\<close> and \<open>Read\<close> reject an empty collection and an empty
  resource, and \<open>ReadAll\<close> rejects an empty collection, with a validation error; \<open>Write\<close>
  then returns the driver and the file system as they were, so that no mutex is fetched or
  locked and nothing is written. (\<open>Read\<close> and \<open>ReadAll\<close> never change either.) \<open>Delete\<close>
  validates nothing.
\<close>

theorem empty_names_rejected:
  "(c = [] \<or> r = [] \<longrightarrow>
      (\<exists>e. Write J d fs c r v = (Some e, d, fs) \<and> ValidationError e) \<and>
      (\<exists>e. Read J d fs c r out = Inl e \<and> ValidationError e)) \<and>
   (c = [] \<longrightarrow> (\<exists>e. ReadAll d fs c = Inl e \<and> ValidationError e))"
  by (auto simp add: Write_def Read_def ReadAll_def ValidationError_def)

theorem empty_names_rejected_witness:
  "(\<exists>e. Write demo_json demo_driver1 demo_fs1 ''users'' [] True =
          (Some e, demo_driver1, demo_fs1) \<and> ValidationError e) \<and>
   (\<exists>e. Read demo_json demo_driver1 demo_fs1 ''users'' [] True = Inl e \<and> ValidationError e) \<and>
   (\<exists>e. ReadAll demo_driver1 demo_fs1 [] = Inl e \<and> ValidationError e)"
  using empty_names_rejected [of "''users''" "[]" demo_json demo_driver1 demo_fs1 True True]
    empty_names_rejected [of "[]" "[]" demo_json demo_driver1 demo_fs1 True True]
  by simp

text \<open>
  \<open>Delete("users", "")\<close> on the example database: no error, the collection's mutex is
  created and locked, and the record of John is gone.
\<close>

theorem delete_skips_validation_counterexample:
  "fst (Delete demo_driver demo_fs1 ''users'' []) = None \<and>
   lookup demo_fs1 [''home'', ''app'', ''users'', ''John.json''] = Some (File ''true\<newline>'') \<and>
   lookup (snd (snd (Delete demo_driver demo_fs1 ''users'' [])))
     [''home'', ''app'', ''users'', ''John.json''] = None \<and>
   lock_trace demo_driver = [] \<and>
   lock_trace (fst (snd (Delete demo_driver demo_fs1 ''users'' []))) =
     [Locked RegistryMutex, Unlocked RegistryMutex,
      Locked (CollectionMutex 0), Unlocked (CollectionMutex 0)]"
  by code_simp

section \<open>\<open>ReadAll\<close> on a name that is a file\<close>

lemma os_ReadDir_missing:
  "os_Stat fs p = Inl (PathError ''stat'' p ENOENT) \<Longrightarrow>
   os_ReadDir fs p = Inl (PathError ''open'' p ENOENT)"
  by (auto simp add: os_Stat_def os_ReadDir_def split: sum.splits option.splits entry.splits)

text \<open>
  C10. When the collection directory does not exist and a regular file with the
  collection's path and \<open>.json\<close> does, \<open>stat\<close> succeeds through its second probe, the error
  of \<open>ReadDir\<close> is dropped, and \<open>ReadAll\<close> returns no records and no error.
\<close>

theorem ReadAll_file_named_like_collection:
  assumes "c \<noteq> []"
    and "os_Stat fs (Join [dir d, c]) = Inl (PathError ''stat'' (Join [dir d, c]) ENOENT)"
    and "os_Stat fs (Join [dir d, c] @ ''.json'') = Inr ModeRegular"
  shows "ReadAll d fs c = Inr []"
  using assms os_ReadDir_missing [OF assms(2)]
  by (simp add: ReadAll_def stat_def Let_def)

theorem ReadAll_file_named_like_collection_witness:
  "''users'' \<noteq> [] \<and>
   os_Stat demo_fs2 (Join [dir demo_driver, ''users'']) =
     Inl (PathError ''stat'' (Join [dir demo_driver, ''users'']) ENOENT) \<and>
   os_Stat demo_fs2 (Join [dir demo_driver, ''users''] @ ''.json'') = Inr ModeRegular \<and>
   ReadAll demo_driver demo_fs2 ''users'' = Inr []"
proof -
  have h1: "os_Stat demo_fs2 (Join [dir demo_driver, ''users'']) =
     Inl (PathError ''stat'' (Join [dir demo_driver, ''users'']) ENOENT)"
    by code_simp
  have h2: "os_Stat demo_fs2 (Join [dir demo_driver, ''users''] @ ''.json'') = Inr ModeRegular"
    by code_simp
  show ?thesis
    using h1 h2 ReadAll_file_named_like_collection [of "''users''" demo_fs2 demo_driver]
    by simp
qed

section \<open>Path elements\<close>

lemma split_path_ne [simp]: "split_path p \<noteq> []"
  by (induction p) (auto split: list.splits)

lemma split_path_noslash: "x \<in> set (split_path p) \<Longrightarrow> noslash x"
  by (induction p arbitrary: x) (auto simp add: noslash_def split: if_splits list.splits)

lemma split_path_plain: "noslash s \<Longrightarrow> split_path s = [s]"
  by (induction s) (auto simp add: noslash_def)

lemma split_path_sep: "split_path (a @ CHR ''/'' # b) = split_path a @ split_path b"
  by (induction a) (auto split: list.splits)

lemma split_path_snoc:
  "noslash s \<Longrightarrow> split_path (p @ s) = butlast (split_path p) @ [last (split_path p) @ s]"
proof (induction p)
  case Nil
  then show ?case by (simp add: split_path_plain)
next
  case (Cons c p)
  then show ?case
    by (cases "split_path p"; cases "split_path (p @ s)") (auto split: if_splits)
qed

lemma join_sep_Cons: "xs \<noteq> [] \<Longrightarrow> join_sep (x # xs) = x @ CHR ''/'' # join_sep xs"
  by (cases xs) auto

lemma split_join:
  "xs \<noteq> [] \<Longrightarrow> \<forall>x \<in> set xs. noslash x \<Longrightarrow> split_path (join_sep xs) = xs"
proof (induction xs)
  case Nil
  then show ?case by simp
next
  case (Cons x xs)
  show ?case
  proof (cases "xs = []")
    case True
    with Cons.prems show ?thesis by (simp add: split_path_plain)
  next
    case False
    with Cons show ?thesis
      by (simp add: join_sep_Cons split_path_sep split_path_plain)
  qed
qed

lemma join_sep_snoc: "join_sep (xs @ [n @ s]) = join_sep (xs @ [n]) @ s"
  by (induction xs rule: join_sep.induct) auto

section \<open>\<open>Clean\<close> and \<open>Join\<close>\<close>

lemma clean_step_push: "normal_stack r (x # st) \<Longrightarrow> clean_step r st x = x # st"
proof (cases "x = ''..''")
  case False
  assume "normal_stack r (x # st)"
  then have "x \<noteq> []" and "x \<noteq> ''.''" by simp_all
  with False show ?thesis by (simp add: clean_step_def)
next
  case True
  assume n: "normal_stack r (x # st)"
  with True have nr: "\<not> r" and al: "\<forall>y \<in> set st. y = ''..''" by simp_all
  from al have "st = [] \<or> hd st = ''..''" by (cases st) simp_all
  with nr True show ?thesis by (auto simp add: clean_step_def)
qed

lemma clean_step_normal: "normal_stack r st \<Longrightarrow> normal_stack r (clean_step r st c)"
  by (cases st) (auto simp add: clean_step_def)

lemma foldl_clean_normal:
  "normal_stack r st \<Longrightarrow> normal_stack r (foldl (clean_step r) st cs)"
  by (induction cs arbitrary: st) (auto simp add: clean_step_normal)

lemma clean_step_subset: "set (clean_step r st c) \<subseteq> insert c (set st)"
  by (cases st) (auto simp add: clean_step_def)

lemma foldl_clean_subset: "set (foldl (clean_step r) st cs) \<subseteq> set st \<union> set cs"
proof (induction cs arbitrary: st)
  case Nil
  then show ?case by simp
next
  case (Cons c cs)
  have "set (foldl (clean_step r) (clean_step r st c) cs) \<subseteq> set (clean_step r st c) \<union> set cs"
    by (rule Cons.IH)
  with clean_step_subset [of r st c] show ?case by auto
qed

lemma replay_normal:
  "normal_stack r (S @ T) \<Longrightarrow> foldl (clean_step r) T (rev S) = S @ T"
proof (induction S)
  case Nil
  then show ?case by simp
next
  case (Cons x S)
  then have ih: "foldl (clean_step r) T (rev S) = S @ T" by simp
  from Cons.prems have "normal_stack r (x # (S @ T))" by simp
  then have "clean_step r (S @ T) x = x # (S @ T)" by (rule clean_step_push)
  with ih show ?case by simp
qed

lemma clean_elems_normal: "normal_stack (rooted p) (rev (clean_elems p))"
  by (simp add: clean_elems_def foldl_clean_normal)

lemma clean_elems_noslash: "x \<in> set (clean_elems p) \<Longrightarrow> noslash x"
  using foldl_clean_subset [of "rooted p" "[]" "split_path p"]
  by (auto simp add: clean_elems_def dest: split_path_noslash)

lemma normal_stack_nonempty: "normal_stack r st \<Longrightarrow> x \<in> set st \<Longrightarrow> x \<noteq> [] \<and> x \<noteq> ''.''"
  by (induction st) auto

lemma clean_elems_nonempty: "x \<in> set (clean_elems p) \<Longrightarrow> x \<noteq> [] \<and> x \<noteq> ''.''"
  using normal_stack_nonempty [OF clean_elems_normal, of x p] by simp

lemma rooted_Cons [simp]: "rooted (c # p) = (c = CHR ''/'')"
  by (simp add: rooted_def)

lemma rooted_Nil [simp]: "\<not> rooted []"
  by (simp add: rooted_def)

lemma rooted_append: "p \<noteq> [] \<Longrightarrow> rooted (p @ q) = rooted p"
  by (cases p) simp_all

lemma rooted_join_sep:
  "xs \<noteq> [] \<Longrightarrow> hd xs \<noteq> [] \<Longrightarrow> noslash (hd xs) \<Longrightarrow> \<not> rooted (join_sep xs)"
proof -
  assume "xs \<noteq> []" and h: "hd xs \<noteq> []" and n: "noslash (hd xs)"
  then obtain x ys where xs: "xs = x # ys" by (cases xs) auto
  with h obtain c cs where x: "x = c # cs" by (cases x) auto
  with n xs have "c \<noteq> CHR ''/''" by (auto simp add: noslash_def)
  with xs x show ?thesis by (cases ys) simp_all
qed

lemma Clean_nonempty [simp]: "Clean p \<noteq> []"
proof -
  have "clean_elems p \<noteq> [] \<Longrightarrow> join_sep (clean_elems p) \<noteq> []"
  proof -
    assume ne: "clean_elems p \<noteq> []"
    then obtain x ys where e: "clean_elems p = x # ys" by (cases "clean_elems p") auto
    then have "x \<noteq> []" using clean_elems_nonempty [of x p] by simp
    with e show ?thesis by (cases ys) simp_all
  qed
  then show ?thesis by (auto simp add: Clean_def)
qed

lemma rooted_Clean [simp]: "rooted (Clean p) = rooted p"
proof (cases "rooted p")
  case True
  then show ?thesis by (simp add: Clean_def)
next
  case False
  show ?thesis
  proof (cases "clean_elems p = []")
    case True
    with False show ?thesis by (simp add: Clean_def)
  next
    case ne: False
    then have "hd (clean_elems p) \<in> set (clean_elems p)" by simp
    then have "hd (clean_elems p) \<noteq> []" and "noslash (hd (clean_elems p))"
      by (auto dest: clean_elems_nonempty clean_elems_noslash)
    with ne have "\<not> rooted (join_sep (clean_elems p))" by (simp add: rooted_join_sep)
    with False ne show ?thesis by (simp add: Clean_def)
  qed
qed

text \<open>The elements of a cleaned path, as the scan of any later \<open>Clean\<close> or the kernel sees them.\<close>

lemma split_Clean:
  "split_path (Clean p) =
     (if rooted p then (if clean_elems p = [] then [[], []] else [] # clean_elems p)
      else if clean_elems p = [] then [''.''] else clean_elems p)"
proof -
  have sj: "clean_elems p \<noteq> [] \<Longrightarrow> split_path (join_sep (clean_elems p)) = clean_elems p"
    by (rule split_join) (auto dest: clean_elems_noslash)
  show ?thesis
    by (auto simp add: Clean_def sj)
qed

lemma clean_step_skip [simp]: "clean_step r st [] = st" "clean_step r st ''.'' = st"
  by (simp_all add: clean_step_def)

lemma replay_Clean:
  "foldl (clean_step (rooted p)) [] (split_path (Clean p)) = rev (clean_elems p)"
proof -
  have "foldl (clean_step (rooted p)) [] (rev (rev (clean_elems p))) = rev (clean_elems p) @ []"
    by (rule replay_normal) (simp add: clean_elems_normal)
  then have r: "foldl (clean_step (rooted p)) [] (clean_elems p) = rev (clean_elems p)"
    by simp
  show ?thesis
    using r by (cases "rooted p") (simp_all add: split_Clean)
qed

lemma Clean_cong:
  "rooted a = rooted b \<Longrightarrow> clean_elems a = clean_elems b \<Longrightarrow> Clean a = Clean b"
  by (simp add: Clean_def)

lemma clean_elems_sep:
  "p \<noteq> [] \<Longrightarrow>
   clean_elems (p @ CHR ''/'' # y) =
     rev (foldl (clean_step (rooted p)) (foldl (clean_step (rooted p)) [] (split_path p))
       (split_path y))"
  by (simp add: clean_elems_def split_path_sep rooted_append)

lemma replay_Clean_eq:
  "foldl (clean_step (rooted p)) [] (split_path (Clean p)) =
   foldl (clean_step (rooted p)) [] (split_path p)"
  by (simp add: replay_Clean clean_elems_def)

lemma clean_elems_Clean_sep:
  assumes "p \<noteq> []"
  shows "clean_elems (Clean p @ CHR ''/'' # y) = clean_elems (p @ CHR ''/'' # y)"
proof -
  have "clean_elems (Clean p @ CHR ''/'' # y) =
     rev (foldl (clean_step (rooted p)) (foldl (clean_step (rooted p)) [] (split_path (Clean p)))
       (split_path y))"
    using clean_elems_sep [of "Clean p" y] by simp
  also have "\<dots> = clean_elems (p @ CHR ''/'' # y)"
    using assms by (simp add: replay_Clean_eq clean_elems_sep)
  finally show ?thesis .
qed

lemma Clean_Clean_sep:
  assumes "p \<noteq> []"
  shows "Clean (Clean p @ CHR ''/'' # y) = Clean (p @ CHR ''/'' # y)"
proof (rule Clean_cong)
  show "rooted (Clean p @ CHR ''/'' # y) = rooted (p @ CHR ''/'' # y)"
    using assms by (simp add: rooted_append)
  show "clean_elems (Clean p @ CHR ''/'' # y) = clean_elems (p @ CHR ''/'' # y)"
    using assms by (rule clean_elems_Clean_sep)
qed

lemma Clean_idem [simp]: "Clean (Clean p) = Clean p"
proof -
  have "clean_elems (Clean p) = clean_elems p"
    using replay_Clean [of p] by (simp add: clean_elems_def)
  then have "Clean (Clean p) = Clean p"
    by (intro Clean_cong) simp_all
  then show ?thesis .
qed

lemma Clean_trailing_sep:
  assumes "p \<noteq> []"
  shows "Clean (p @ ''/'') = Clean p"
proof (rule Clean_cong)
  show "rooted (p @ ''/'') = rooted p"
    using assms by (simp add: rooted_append)
  have "clean_elems (p @ CHR ''/'' # []) = rev (foldl (clean_step (rooted p)) [] (split_path p))"
    using assms by (simp add: clean_elems_sep)
  then show "clean_elems (p @ ''/'') = clean_elems p"
    by (simp add: clean_elems_def)
qed

text \<open>Replaying a relative cleaned path on top of any stack.\<close>

lemma clean_step_name: "name_elem x \<Longrightarrow> clean_step r st x = x # st"
  by (simp add: clean_step_def name_elem_def)

lemma clean_step_pop: "name_elem n \<Longrightarrow> clean_step r (n # st) ''..'' = st"
  by (simp add: clean_step_def name_elem_def)

lemma replay_step:
  assumes "normal_stack False S"
  shows "foldl (clean_step r) T (rev (clean_step False S x)) =
         clean_step r (foldl (clean_step r) T (rev S)) x"
proof (cases "x = [] \<or> x = ''.''")
  case True
  then show ?thesis by auto
next
  case skip: False
  show ?thesis
  proof (cases "x = ''..''")
    case False
    with skip have "name_elem x" by (simp add: name_elem_def)
    then show ?thesis by (simp add: clean_step_name)
  next
    case True
    show ?thesis
    proof (cases "S \<noteq> [] \<and> hd S \<noteq> ''..''")
      case False
      with True have "clean_step False S x = ''..'' # S" by (auto simp add: clean_step_def)
      with True show ?thesis by simp
    next
      case pop: True
      then obtain n S0 where S: "S = n # S0" by (cases S) auto
      with pop assms have n: "name_elem n" by (simp add: name_elem_def)
      from True S pop have "clean_step False S x = S0" by (simp add: clean_step_def)
      with True S n show ?thesis by (simp add: clean_step_name clean_step_pop)
    qed
  qed
qed

lemma replay_relative:
  "normal_stack False S \<Longrightarrow>
   foldl (clean_step r) T (rev (foldl (clean_step False) S xs)) =
   foldl (clean_step r) (foldl (clean_step r) T (rev S)) xs"
proof (induction xs arbitrary: S)
  case Nil
  then show ?case by simp
next
  case (Cons x xs)
  from Cons.prems have "normal_stack False (clean_step False S x)"
    by (rule clean_step_normal)
  then have "foldl (clean_step r) T (rev (foldl (clean_step False) (clean_step False S x) xs)) =
      foldl (clean_step r) (foldl (clean_step r) T (rev (clean_step False S x))) xs"
    by (rule Cons.IH)
  with replay_step [OF Cons.prems, of r T x] show ?case by simp
qed

lemma replay_Clean_relative:
  assumes "\<not> rooted x"
  shows "foldl (clean_step r) T (split_path (Clean x)) = foldl (clean_step r) T (split_path x)"
proof -
  have "foldl (clean_step r) T (rev (foldl (clean_step False) [] (split_path x))) =
        foldl (clean_step r) (foldl (clean_step r) T (rev [])) (split_path x)"
    by (rule replay_relative) simp
  then have e: "foldl (clean_step r) T (clean_elems x) = foldl (clean_step r) T (split_path x)"
    using assms by (simp add: clean_elems_def)
  show ?thesis
  proof (cases "clean_elems x = []")
    case True
    with e assms show ?thesis by (simp add: split_Clean)
  next
    case False
    with e assms show ?thesis by (simp add: split_Clean)
  qed
qed

lemma Clean_sep_Clean:
  assumes "\<not> rooted x"
  shows "Clean (a @ CHR ''/'' # Clean x) = Clean (a @ CHR ''/'' # x)"
proof -
  have r: "rooted (a @ CHR ''/'' # Clean x) = rooted (a @ CHR ''/'' # x)"
    by (cases a) simp_all
  have "clean_elems (a @ CHR ''/'' # Clean x) = clean_elems (a @ CHR ''/'' # x)"
    using replay_Clean_relative [OF assms]
    by (simp add: clean_elems_def split_path_sep r)
  with r show ?thesis by (simp add: Clean_def)
qed

text \<open>Appending a suffix to the last element of a path whose last element is a name.\<close>

lemma name_elem_suffix: "name_elem n \<Longrightarrow> name_elem (n @ ''.json'')"
  by (cases n) (auto simp add: name_elem_def)

lemma Clean_suffix:
  assumes "name_elem (last (split_path p))"
  shows "Clean (p @ ''.json'') = Clean p @ ''.json''"
proof -
  let ?n = "last (split_path p)"
  let ?S = "foldl (clean_step (rooted p)) [] (butlast (split_path p))"
  have pne: "p \<noteq> []"
    using assms by (cases p) (auto simp add: name_elem_def)
  have sp: "split_path (p @ ''.json'') = butlast (split_path p) @ [?n @ ''.json'']"
    by (rule split_path_snoc) (simp add: noslash_def)
  have sp0: "split_path p = butlast (split_path p) @ [?n]"
    by simp
  have e1: "clean_elems (p @ ''.json'') = rev ?S @ [?n @ ''.json'']"
    using pne by (simp add: clean_elems_def sp rooted_append
        clean_step_name [OF name_elem_suffix [OF assms]])
  have fa: "\<And>xs. xs \<noteq> [] \<Longrightarrow> foldl (clean_step (rooted p)) [] xs =
      clean_step (rooted p) (foldl (clean_step (rooted p)) [] (butlast xs)) (last xs)"
  proof -
    fix xs :: "string list"
    assume "xs \<noteq> []"
    then have "xs = butlast xs @ [last xs]" by simp
    then have "foldl (clean_step (rooted p)) [] xs =
        foldl (clean_step (rooted p)) [] (butlast xs @ [last xs])" by simp
    then show "foldl (clean_step (rooted p)) [] xs =
      clean_step (rooted p) (foldl (clean_step (rooted p)) [] (butlast xs)) (last xs)"
      by (simp only: foldl_append foldl.simps)
  qed
  have "foldl (clean_step (rooted p)) [] (split_path p) = clean_step (rooted p) ?S ?n"
    by (rule fa) simp
  then have e2: "clean_elems p = rev ?S @ [?n]"
    by (simp add: clean_elems_def clean_step_name [OF assms])
  show ?thesis
    using pne by (simp add: Clean_def e1 e2 rooted_append join_sep_snoc)
qed

lemma Join2: "a \<noteq> [] \<Longrightarrow> Join [a, b] = Clean (a @ CHR ''/'' # b)"
  by (simp add: Join_def)

lemma Join3: "a \<noteq> [] \<Longrightarrow> Join [a, b, c] = Clean (a @ CHR ''/'' # b @ CHR ''/'' # c)"
  by (simp add: Join_def)

lemma Join2_empty: "b \<noteq> [] \<Longrightarrow> Join [[], b] = Clean b"
  by (cases b) (simp_all add: Join_def)

lemma Join3_empty: "b \<noteq> [] \<Longrightarrow> Join [[], b, c] = Clean (b @ CHR ''/'' # c)"
  by (cases b) (simp_all add: Join_def)

lemma raw_dir_nonempty: "c \<noteq> [] \<Longrightarrow> raw_dir root c \<noteq> []"
  by (simp add: raw_dir_def)

lemma Join_dir: "c \<noteq> [] \<Longrightarrow> Join [root, c] = Clean (raw_dir root c)"
  by (simp add: raw_dir_def Join2 Join2_empty)

lemma Join_record: "c \<noteq> [] \<Longrightarrow> Join [root, c, r] = Clean (raw_dir root c @ CHR ''/'' # r)"
  by (simp add: raw_dir_def Join3 Join3_empty)

lemma Join_dir_nonempty: "c \<noteq> [] \<Longrightarrow> Join [root, c] \<noteq> []"
  by (simp add: Join_dir)

lemma write_path_eq_read_path:
  assumes "c \<noteq> []" and "name_elem (last (split_path r))"
  shows "Join [Join [root, c], r @ ''.json''] = Join [root, c, r] @ ''.json''"
proof -
  let ?X = "raw_dir root c"
  have x: "?X \<noteq> []" using assms(1) by (rule raw_dir_nonempty)
  have d: "Join [root, c] = Clean ?X"
    using assms(1) by (rule Join_dir)
  have "Join [Clean ?X, r @ ''.json''] = Clean (Clean ?X @ CHR ''/'' # r @ ''.json'')"
    by (rule Join2) simp
  with d have "Join [Join [root, c], r @ ''.json''] =
      Clean (Clean ?X @ CHR ''/'' # r @ ''.json'')"
    by simp
  also have "\<dots> = Clean (?X @ CHR ''/'' # r @ ''.json'')"
    using x by (rule Clean_Clean_sep)
  also have "\<dots> = Clean ((?X @ CHR ''/'' # r) @ ''.json'')"
    by simp
  also have "\<dots> = Clean (?X @ CHR ''/'' # r) @ ''.json''"
    by (rule Clean_suffix) (simp add: split_path_sep assms(2))
  finally show ?thesis
    using assms(1) by (simp add: Join_record)
qed

lemma delete_path_eq_read_path:
  assumes "c \<noteq> []" and "\<not> rooted c"
  shows "Join [root, Join [c, r]] = Join [root, c, r]"
proof -
  have j: "Join [c, r] = Clean (c @ CHR ''/'' # r)"
    using assms(1) by (rule Join2)
  have nr: "\<not> rooted (c @ CHR ''/'' # r)"
    using assms by (simp add: rooted_append)
  show ?thesis
  proof (cases "root = []")
    case True
    then show ?thesis using assms(1) by (simp add: j Join2_empty Join3_empty)
  next
    case False
    then have "Join [root, Join [c, r]] = Clean (root @ CHR ''/'' # Clean (c @ CHR ''/'' # r))"
      by (simp add: j Join2)
    also have "\<dots> = Clean (root @ CHR ''/'' # c @ CHR ''/'' # r)"
      using nr by (rule Clean_sep_Clean)
    finally show ?thesis using False by (simp add: Join3)
  qed
qed

lemma Join_empty_resource:
  assumes "c \<noteq> []"
  shows "Join [root, c, []] = Join [root, c]"
proof -
  have "Clean (raw_dir root c @ ''/'') = Clean (raw_dir root c)"
    using raw_dir_nonempty [OF assms] by (rule Clean_trailing_sep)
  then show ?thesis using assms by (simp add: Join_dir Join_record)
qed

section \<open>The file system after an operation\<close>

lemma map_of_put_entry:
  "map_of (put_entry k e xs) q = (if q = k then Some e else map_of xs q)"
  by (induction xs) auto

lemma map_of_filter_key:
  "map_of (filter (\<lambda>x. P (fst x)) xs) q = (if P q then map_of xs q else None)"
  by (induction xs) auto

lemma lookup_root [simp]: "lookup fs [] = Some Dir"
  by (simp add: lookup_def)

lemma lookup_put:
  "lookup (put fs k e) q = (if q = [] then Some Dir else if q = k then Some e else lookup fs q)"
  by (simp add: lookup_def put_def map_of_put_entry)

lemma cwd_put [simp]: "cwd (put fs k e) = cwd fs"
  by (simp add: put_def)

lemma lookup_remove_one:
  "lookup (remove_one fs k) q =
     (if q = [] then Some Dir else if q = k then None else lookup fs q)"
  using map_of_filter_key [of "\<lambda>x. x \<noteq> k" "entries fs" q]
  by (simp add: lookup_def remove_one_def)

lemma cwd_remove_one [simp]: "cwd (remove_one fs k) = cwd fs"
  by (simp add: remove_one_def)

lemma lookup_remove_tree:
  "lookup (remove_tree fs k) q =
     (if q = [] then Some Dir else if prefix k q then None else lookup fs q)"
  using map_of_filter_key [of "\<lambda>x. \<not> prefix k x" "entries fs" q]
  by (simp add: lookup_def remove_tree_def)

lemma cwd_remove_tree [simp]: "cwd (remove_tree fs k) = cwd fs"
  by (simp add: remove_tree_def)

lemma walk_keeps_dirs:
  "walk fs cur cs = Inr k \<Longrightarrow> keeps_dirs fs fs' \<Longrightarrow> walk fs' cur cs = Inr k"
proof (induction cs arbitrary: cur)
  case Nil
  then show ?case by simp
next
  case (Cons c cs)
  from Cons.prems(1) have d: "lookup fs cur = Some Dir"
    by (auto split: option.splits entry.splits)
  with Cons.prems(2) have d': "lookup fs' cur = Some Dir"
    by (simp add: keeps_dirs_def)
  show ?case
    using Cons.prems Cons.IH d d' by (auto split: if_splits)
qed

lemma resolve_keeps_dirs:
  "resolve fs p = Inr k \<Longrightarrow> keeps_dirs fs fs' \<Longrightarrow> resolve fs' p = Inr k"
  using walk_keeps_dirs [of fs "start_dir fs p" "split_path p" k fs']
  by (auto simp add: resolve_def start_dir_def keeps_dirs_def split: if_splits)

lemma walk_append:
  "walk fs cur (xs @ ys) = (case walk fs cur xs of Inl e \<Rightarrow> Inl e | Inr k \<Rightarrow> walk fs k ys)"
  by (induction xs arbitrary: cur) (auto split: option.splits entry.splits)

lemma keeps_all_dirs: "keeps_all fs fs' \<Longrightarrow> keeps_dirs fs fs'"
  by (simp add: keeps_all_def keeps_dirs_def)

lemma keeps_all_refl [simp]: "keeps_all fs fs"
  by (simp add: keeps_all_def)

lemma keeps_all_trans: "keeps_all a b \<Longrightarrow> keeps_all b c \<Longrightarrow> keeps_all a c"
  by (simp add: keeps_all_def)

lemma ensure_dir_keeps: "ensure_dir fs k = Inr fs' \<Longrightarrow> keeps_all fs fs'"
  by (auto simp add: ensure_dir_def keeps_all_def lookup_put split: option.splits entry.splits)

lemma ensure_dir_fail: "ensure_dir fs k = Inl e \<Longrightarrow> e = ENOTDIR"
  by (auto simp add: ensure_dir_def split: option.splits entry.splits)

lemma mkdir_all_keeps: "mkdir_all fs cur cs = (r, fs') \<Longrightarrow> keeps_all fs fs'"
proof (induction cs arbitrary: fs cur)
  case Nil
  then show ?case
    by (auto split: sum.splits dest: ensure_dir_keeps)
next
  case (Cons c cs)
  show ?case
  proof (cases "ensure_dir fs cur")
    case (Inl e)
    with Cons.prems show ?thesis by simp
  next
    case (Inr fs1)
    then have k1: "keeps_all fs fs1" by (rule ensure_dir_keeps)
    from Cons.prems Inr have "\<exists>cur'. mkdir_all fs1 cur' cs = (r, fs')"
      by (auto split: if_splits)
    then obtain cur' where "mkdir_all fs1 cur' cs = (r, fs')" ..
    then have "keeps_all fs1 fs'" by (rule Cons.IH)
    with k1 show ?thesis by (rule keeps_all_trans)
  qed
qed

lemma os_MkdirAll_keeps: "os_MkdirAll fs p = (r, fs') \<Longrightarrow> keeps_all fs fs'"
  by (auto simp add: os_MkdirAll_def split: if_splits option.splits entry.splits prod.splits
      dest: mkdir_all_keeps)

lemma os_ReadFile_keeps:
  "os_ReadFile fs p = Inr b \<Longrightarrow> keeps_all fs fs' \<Longrightarrow> os_ReadFile fs' p = Inr b"
proof -
  assume r: "os_ReadFile fs p = Inr b" and k: "keeps_all fs fs'"
  from r obtain key where res: "resolve fs p = Inr key" and l: "lookup fs key = Some (File b)"
    by (auto simp add: os_ReadFile_def split: sum.splits option.splits entry.splits)
  from res k have "resolve fs' p = Inr key"
    by (auto intro: resolve_keeps_dirs keeps_all_dirs)
  moreover from l k have "lookup fs' key = Some (File b)"
    by (simp add: keeps_all_def)
  ultimately show ?thesis by (simp add: os_ReadFile_def)
qed

text \<open>
  A failed \<open>os.WriteFile\<close> either changed nothing or left its own file shortened; every
  other entry is as it was.
\<close>

lemma os_WriteFile_fail:
  assumes "os_WriteFile fs p b = (Some e, fs')"
  shows "fs' = fs \<or>
         (\<exists>k. resolve fs p = Inr k \<and> lookup fs k \<noteq> Some Dir \<and> cwd fs' = cwd fs \<and>
              (\<forall>q. q \<noteq> k \<longrightarrow> lookup fs' q = lookup fs q))"
  using assms
  by (auto simp add: os_WriteFile_def Let_def lookup_put
      split: sum.splits option.splits entry.splits if_splits)

lemma os_WriteFile_ok:
  assumes "os_WriteFile fs p b = (None, fs')"
  shows "\<exists>k. resolve fs p = Inr k \<and> resolve fs' p = Inr k \<and> lookup fs' k = Some (File b) \<and>
             keeps_dirs fs fs'"
proof -
  from assms obtain k where res: "resolve fs p = Inr k" and nd: "lookup fs k \<noteq> Some Dir"
    and fs': "fs' = put (put fs k (File [])) k (File b)"
    by (auto simp add: os_WriteFile_def Let_def
        split: sum.splits option.splits entry.splits if_splits)
  from nd have ne: "k \<noteq> []" by auto
  have kd: "keeps_dirs fs fs'"
    using nd by (auto simp add: keeps_dirs_def fs' lookup_put)
  from res kd have "resolve fs' p = Inr k" by (rule resolve_keeps_dirs)
  moreover have "lookup fs' k = Some (File b)"
    using ne by (simp add: fs' lookup_put)
  ultimately show ?thesis using res kd by blast
qed

text \<open>
  The write is not atomic. On a device with room for five bytes, writing the six bytes of
  \<open>false\<close> over the record of John fails and leaves five of them: the record is lost.
\<close>

lemma os_WriteFile_in_place:
  "fst (os_WriteFile (demo_fs1\<lparr>capacity := Some 5\<rparr>) ''users/John.json'' ''false\<newline>'') =
     Some (PathError ''write'' ''users/John.json'' ENOSPC) \<and>
   os_ReadFile (snd (os_WriteFile (demo_fs1\<lparr>capacity := Some 5\<rparr>) ''users/John.json''
     ''false\<newline>'')) ''users/John.json'' = Inr ''false''"
  by code_simp

lemma os_Rename_file_ok:
  assumes "os_Rename fs old new = (None, fs')"
    and "resolve fs old = Inr ko" and "lookup fs ko = Some (File b)"
  shows "\<exists>kn. resolve fs' new = Inr kn \<and> lookup fs' kn = Some (File b)"
proof -
  from assms(1) have nd: "os_Stat fs new \<noteq> Inr ModeDir"
    by (auto simp add: os_Rename_def split: if_splits)
  from assms nd obtain kn where res: "resolve fs new = Inr kn"
    and fs': "fs' = (if ko = kn then fs else remove_one (put fs kn (File b)) ko)"
    by (auto simp add: os_Rename_def split: if_splits sum.splits)
  from nd res have ndir: "lookup fs kn \<noteq> Some Dir"
    by (auto simp add: os_Stat_def split: option.splits entry.splits)
  then have ne: "kn \<noteq> []" by auto
  have kd: "keeps_dirs fs fs'"
    using ndir assms(3) by (auto simp add: keeps_dirs_def fs' lookup_put lookup_remove_one)
  from res kd have "resolve fs' new = Inr kn" by (rule resolve_keeps_dirs)
  moreover have "lookup fs' kn = Some (File b)"
    using ne assms(3) by (auto simp add: fs' lookup_put lookup_remove_one)
  ultimately show ?thesis by blast
qed

lemma write_locked_ok:
  assumes "write_locked J root fs c r v = (None, fs')"
  shows "\<exists>b. MarshalIndent J v = Some b \<and>
             os_ReadFile fs' (Join [Join [root, c], r @ ''.json'']) = Inr (b @ [newline])"
proof -
  let ?fnl = "Join [Join [root, c], r @ ''.json'']"
  from assms obtain fs1 b fs2 where
    m: "MarshalIndent J v = Some b" and
    w: "os_WriteFile fs1 (?fnl @ ''.tmp'') (b @ [newline]) = (None, fs2)" and
    rn: "os_Rename fs2 (?fnl @ ''.tmp'') ?fnl = (None, fs')"
    by (auto simp add: write_locked_def Let_def split: prod.splits option.splits)
  from os_WriteFile_ok [OF w] obtain kt where
    "resolve fs2 (?fnl @ ''.tmp'') = Inr kt" and "lookup fs2 kt = Some (File (b @ [newline]))"
    by blast
  from os_Rename_file_ok [OF rn this] obtain kn where
    "resolve fs' ?fnl = Inr kn" and "lookup fs' kn = Some (File (b @ [newline]))"
    by blast
  then have "os_ReadFile fs' ?fnl = Inr (b @ [newline])"
    by (simp add: os_ReadFile_def)
  with m show ?thesis by blast
qed

lemma Write_locked:
  "Write J d fs c r v = (err, d', fs') \<Longrightarrow> c \<noteq> [] \<Longrightarrow> r \<noteq> [] \<Longrightarrow>
   write_locked J (dir d) fs c r v = (err, fs')"
proof -
  assume w: "Write J d fs c r v = (err, d', fs')" and ne: "c \<noteq> []" "r \<noteq> []"
  obtain m d1 where g: "GetOrCreateMutex d c = (m, d1)"
    by (cases "GetOrCreateMutex d c")
  then have "dir d1 = dir d"
    using GetOrCreateMutex_dir [of d c] by simp
  with w ne g show ?thesis
    by (auto simp add: Write_def split: prod.splits)
qed

lemma Write_ok_names:
  "Write J d fs c r v = (None, d', fs') \<Longrightarrow> c \<noteq> [] \<and> r \<noteq> []"
  by (auto simp add: Write_def split: if_splits)

lemma walk_needs_dir: "walk fs k (c # cs) = Inr k' \<Longrightarrow> lookup fs k = Some Dir"
  by (auto split: option.splits entry.splits)

lemma walk_single: "lookup fs k = Some Dir \<Longrightarrow> \<exists>k'. walk fs k [c] = Inr k'"
  by simp

lemma walk_single_name:
  "name_elem n \<Longrightarrow> walk fs k [n] = (if lookup fs k = Some Dir then Inr (k @ [n])
     else if lookup fs k = None then Inl ENOENT else Inl ENOTDIR)"
  by (auto simp add: name_elem_def split: option.splits entry.splits)

lemma walk_snoc_ok:
  assumes "walk fs st (xs @ [c]) = Inr k"
  shows "\<exists>kp. walk fs st xs = Inr kp \<and> lookup fs kp = Some Dir \<and> walk fs kp [c] = Inr k"
proof (cases "walk fs st xs")
  case (Inl e)
  with assms show ?thesis by (simp add: walk_append)
next
  case (Inr kp)
  with assms have w: "walk fs kp [c] = Inr k" by (simp add: walk_append)
  then have "lookup fs kp = Some Dir" by (rule walk_needs_dir)
  with Inr w show ?thesis by blast
qed

lemma walk_snoc_name:
  assumes "name_elem n" and "walk fs st (xs @ [n]) = Inr k"
  shows "\<exists>kp. k = kp @ [n] \<and> walk fs st xs = Inr kp \<and> lookup fs kp = Some Dir"
proof -
  from walk_snoc_ok [OF assms(2)] obtain kp where
    kp: "walk fs st xs = Inr kp" "lookup fs kp = Some Dir" "walk fs kp [n] = Inr k"
    by blast
  from kp(2,3) have "k = kp @ [n]"
    by (simp add: walk_single_name [OF assms(1)] del: walk.simps)
  with kp show ?thesis by blast
qed

lemma start_dir_append: "p \<noteq> [] \<Longrightarrow> start_dir fs (p @ s) = start_dir fs p"
  by (simp add: start_dir_def rooted_append)

lemma resolve_suffix_parent:
  assumes "resolve fs (p @ s) = Inr k" and "noslash s" and "p \<noteq> []"
  shows "\<exists>k'. resolve fs p = Inr k'"
proof -
  let ?xs = "butlast (split_path p)"
  let ?n = "last (split_path p)"
  from assms have w: "walk fs (start_dir fs p) (?xs @ [?n @ s]) = Inr k"
    by (simp add: resolve_def start_dir_append split_path_snoc)
  from walk_snoc_ok [OF w] obtain kp where
    kp: "walk fs (start_dir fs p) ?xs = Inr kp" "lookup fs kp = Some Dir"
    by blast
  from walk_single [OF kp(2), of ?n] obtain k' where k': "walk fs kp [?n] = Inr k'" ..
  have "walk fs (start_dir fs p) (?xs @ [?n]) = walk fs kp [?n]"
    using kp(1) by (simp only: walk_append sum.case)
  then have "walk fs (start_dir fs p) (split_path p) = Inr k'"
    using k' by simp
  with assms(3) show ?thesis by (simp add: resolve_def)
qed

lemma os_Stat_cases:
  "resolve fs p = Inr k \<Longrightarrow>
   (\<exists>m. os_Stat fs p = Inr m) \<or> os_Stat fs p = Inl (PathError ''stat'' p ENOENT)"
  by (auto simp add: os_Stat_def split: option.splits entry.splits)

lemma os_Stat_ok_resolve: "os_Stat fs p = Inr m \<Longrightarrow> \<exists>k. resolve fs p = Inr k"
  by (auto simp add: os_Stat_def split: sum.splits)

lemma os_Stat_empty: "os_Stat fs [] = Inl (PathError ''stat'' [] ENOENT)"
  by (simp add: os_Stat_def resolve_def)

lemma stat_via_json:
  assumes "os_Stat fs (p @ ''.json'') = Inr m"
  shows "\<exists>m'. stat fs p = Inr m'"
proof (cases "p = []")
  case True
  with assms show ?thesis by (simp add: stat_def os_Stat_empty)
next
  case False
  from os_Stat_ok_resolve [OF assms] obtain k where "resolve fs (p @ ''.json'') = Inr k" ..
  then have "\<exists>k'. resolve fs p = Inr k'"
    by (rule resolve_suffix_parent) (simp_all add: noslash_def False)
  then obtain k' where "resolve fs p = Inr k'" ..
  from os_Stat_cases [OF this] assms show ?thesis
    by (auto simp add: stat_def)
qed

lemma os_ReadFile_Stat: "os_ReadFile fs p = Inr b \<Longrightarrow> os_Stat fs p = Inr ModeRegular"
  by (auto simp add: os_ReadFile_def os_Stat_def split: sum.splits option.splits entry.splits)

lemma Read_stored:
  assumes "c \<noteq> []" and "r \<noteq> []"
    and "os_ReadFile fs (Join [dir d, c, r] @ ''.json'') = Inr b"
  shows "Read J d fs c r out =
         (case Unmarshal J b out of None \<Rightarrow> Inl UnmarshalError | Some v \<Rightarrow> Inr v)"
proof -
  from stat_via_json [OF os_ReadFile_Stat [OF assms(3)]] obtain m where
    "stat fs (Join [dir d, c, r]) = Inr m" ..
  with assms show ?thesis by (simp add: Read_def Let_def)
qed

lemma os_MkdirAll_error: "os_MkdirAll fs p = (Some e, fs') \<Longrightarrow> \<not> rename_failed e"
  by (auto simp add: os_MkdirAll_def rename_failed_def
      split: if_splits option.splits entry.splits prod.splits)

lemma os_WriteFile_error: "os_WriteFile fs p b = (Some e, fs') \<Longrightarrow> \<not> rename_failed e"
  by (auto simp add: os_WriteFile_def Let_def rename_failed_def
      split: sum.splits option.splits entry.splits if_splits)

lemma os_Rename_error: "os_Rename fs a b = (Some e, fs') \<Longrightarrow> rename_failed e"
  by (auto simp add: os_Rename_def rename_failed_def
      split: if_splits sum.splits option.splits entry.splits)

text \<open>
  The temporary path and the final path name different entries: the last element of the
  temporary path is a name that ends in \<open>.tmp\<close>, whatever the last element of the final path
  is.
\<close>

lemma walk_single_cases:
  "walk fs kp [n] = Inr k \<Longrightarrow> k = kp \<or> k = butlast kp \<or> k = kp @ [n]"
  by (auto split: option.splits entry.splits if_splits)

lemma name_elem_tmp: "name_elem (n @ ''.tmp'')"
  by (cases n) (auto simp add: name_elem_def)

lemma resolve_tmp_distinct:
  assumes "resolve fs p = Inr k" and "resolve fs (p @ ''.tmp'') = Inr k'"
  shows "k' \<noteq> k"
proof -
  let ?xs = "butlast (split_path p)"
  let ?n = "last (split_path p)"
  from assms(1) have pne: "p \<noteq> []"
    by (auto simp add: resolve_def split: if_splits)
  have sp: "split_path (p @ ''.tmp'') = ?xs @ [?n @ ''.tmp'']"
    by (rule split_path_snoc) (simp add: noslash_def)
  from assms(2) pne have w': "walk fs (start_dir fs p) (?xs @ [?n @ ''.tmp'']) = Inr k'"
    by (simp add: resolve_def start_dir_append sp)
  from walk_snoc_name [OF name_elem_tmp w'] obtain kp where
    kp: "k' = kp @ [?n @ ''.tmp'']" "walk fs (start_dir fs p) ?xs = Inr kp"
    by blast
  have "split_path p = ?xs @ [?n]" by simp
  with assms(1) pne have "walk fs (start_dir fs p) (?xs @ [?n]) = Inr k"
    by (simp add: resolve_def)
  with kp(2) have "walk fs kp [?n] = Inr k"
    by (simp only: walk_append sum.case)
  then have "k = kp \<or> k = butlast kp \<or> k = kp @ [?n]"
    by (rule walk_single_cases)
  moreover have "kp @ [?n @ ''.tmp''] \<noteq> butlast kp"
  proof
    assume "kp @ [?n @ ''.tmp''] = butlast kp"
    then have "length (kp @ [?n @ ''.tmp'']) = length (butlast kp)" by simp
    then show False by simp
  qed
  ultimately show ?thesis
    using kp(1) by auto
qed

lemma os_WriteFile_tmp_keeps:
  assumes w: "os_WriteFile fs (p @ ''.tmp'') b = (Some e, fs')"
    and r: "os_ReadFile fs p = Inr old"
  shows "os_ReadFile fs' p = Inr old"
proof -
  from os_WriteFile_fail [OF w] show ?thesis
  proof
    assume "fs' = fs"
    with r show ?thesis by simp
  next
    assume "\<exists>k. resolve fs (p @ ''.tmp'') = Inr k \<and> lookup fs k \<noteq> Some Dir \<and>
        cwd fs' = cwd fs \<and> (\<forall>q. q \<noteq> k \<longrightarrow> lookup fs' q = lookup fs q)"
    then obtain kt where kt: "resolve fs (p @ ''.tmp'') = Inr kt" "lookup fs kt \<noteq> Some Dir"
      "cwd fs' = cwd fs" "\<forall>q. q \<noteq> kt \<longrightarrow> lookup fs' q = lookup fs q"
      by blast
    from r obtain k where k: "resolve fs p = Inr k" "lookup fs k = Some (File old)"
      by (auto simp add: os_ReadFile_def split: sum.splits option.splits entry.splits)
    from k(1) kt(1) have ne: "kt \<noteq> k" by (rule resolve_tmp_distinct)
    have kd: "keeps_dirs fs fs'"
      unfolding keeps_dirs_def
    proof (intro conjI allI impI)
      show "cwd fs' = cwd fs" by (rule kt(3))
    next
      fix q
      assume d: "lookup fs q = Some Dir"
      with kt(2) have "q \<noteq> kt" by auto
      with kt(4) d show "lookup fs' q = Some Dir" by simp
    qed
    from k(1) kd have "resolve fs' p = Inr k" by (rule resolve_keeps_dirs)
    moreover from ne kt(4) k(2) have "lookup fs' k = Some (File old)" by simp
    ultimately show ?thesis by (simp add: os_ReadFile_def)
  qed
qed

text \<open>
  A \<open>Write\<close> that fails before the rename has run \<open>MkdirAll\<close>, which only adds directories,
  and at most a write to the temporary path: the file at the final path is not touched.
\<close>

lemma write_locked_fail_final:
  assumes "write_locked J root fs c r v = (Some e, fs')" and "\<not> rename_failed e"
    and "os_ReadFile fs (Join [Join [root, c], r @ ''.json'']) = Inr old"
  shows "os_ReadFile fs' (Join [Join [root, c], r @ ''.json'']) = Inr old"
proof -
  let ?dir = "Join [root, c]"
  let ?fnl = "Join [?dir, r @ ''.json'']"
  obtain r1 fs1 where m: "os_MkdirAll fs ?dir = (r1, fs1)" by (cases "os_MkdirAll fs ?dir")
  then have "keeps_all fs fs1" by (rule os_MkdirAll_keeps)
  with assms(3) have k1: "os_ReadFile fs1 ?fnl = Inr old" by (rule os_ReadFile_keeps)
  show ?thesis
  proof (cases r1)
    case (Some err)
    with assms m have "fs' = fs1" by (simp add: write_locked_def Let_def)
    with k1 show ?thesis by simp
  next
    case None
    show ?thesis
    proof (cases "MarshalIndent J v")
      case nob: None
      with assms m None have "fs' = fs1" by (simp add: write_locked_def Let_def)
      with k1 show ?thesis by simp
    next
      case (Some b)
      obtain r2 fs2 where w: "os_WriteFile fs1 (?fnl @ ''.tmp'') (b @ [newline]) = (r2, fs2)"
        by (cases "os_WriteFile fs1 (?fnl @ ''.tmp'') (b @ [newline])")
      show ?thesis
      proof (cases r2)
        case werr: (Some err)
        with w have "os_WriteFile fs1 (?fnl @ ''.tmp'') (b @ [newline]) = (Some err, fs2)"
          by simp
        then have "os_ReadFile fs2 ?fnl = Inr old" using k1 by (rule os_WriteFile_tmp_keeps)
        moreover from assms m None Some w werr have "fs' = fs2"
          by (simp add: write_locked_def Let_def)
        ultimately show ?thesis by simp
      next
        case wok: None
        with assms m None Some w have "os_Rename fs2 (?fnl @ ''.tmp'') ?fnl = (Some e, fs')"
          by (simp add: write_locked_def Let_def)
        then have "rename_failed e" by (rule os_Rename_error)
        with assms(2) show ?thesis by simp
      qed
    qed
  qed
qed

lemma Write_fail_final:
  assumes "fst (Write J d fs c r v) = Some e" and "\<not> rename_failed e"
    and "os_ReadFile fs (Join [Join [dir d, c], r @ ''.json'']) = Inr old"
  shows "os_ReadFile (snd (snd (Write J d fs c r v))) (Join [Join [dir d, c], r @ ''.json'']) =
           Inr old"
proof (cases "c = [] \<or> r = []")
  case True
  then have "snd (snd (Write J d fs c r v)) = fs" by (auto simp add: Write_def)
  with assms(3) show ?thesis by simp
next
  case False
  obtain err d' fs' where w: "Write J d fs c r v = (err, d', fs')"
    by (cases "Write J d fs c r v") auto
  with False have "write_locked J (dir d) fs c r v = (err, fs')"
    by (auto intro: Write_locked)
  with assms(1) w have "write_locked J (dir d) fs c r v = (Some e, fs')" by simp
  then have "os_ReadFile fs' (Join [Join [dir d, c], r @ ''.json'']) = Inr old"
    using assms(2,3) by (rule write_locked_fail_final)
  with w show ?thesis by simp
qed

lemma dir_trace [simp]: "dir (trace ev d) = dir d"
  by (simp add: trace_def)

lemma Write_dir: "dir (fst (snd (Write J d fs c r v))) = dir d"
  using Write_driver [of J d fs c r v] by auto

lemma Write_fst_ok:
  assumes "fst (Write J d fs c r v) = None"
  shows "c \<noteq> []" and "r \<noteq> []"
    and "write_locked J (dir d) fs c r v = (None, snd (snd (Write J d fs c r v)))"
proof -
  obtain d' fs' where w: "Write J d fs c r v = (None, d', fs')"
    using assms by (cases "Write J d fs c r v") auto
  from Write_ok_names [OF w] show "c \<noteq> []" and "r \<noteq> []" by simp_all
  with w show "write_locked J (dir d) fs c r v = (None, snd (snd (Write J d fs c r v)))"
    by (auto dest: Write_locked)
qed

section \<open>Removal\<close>

lemma endsWithDot_last:
  assumes "endsWithDot p"
  shows "last (split_path p) = ''.''"
proof (cases "p = ''.''")
  case True
  then show ?thesis by simp
next
  case False
  with assms have l: "length p \<ge> 2" and a: "last p = CHR ''.''"
    and b: "last (butlast p) = CHR ''/''"
    by (simp_all add: endsWithDot_def)
  from l obtain q y where p: "p = q @ [y]"
    by (cases p rule: rev_cases) auto
  with l obtain q' x where q: "q = q' @ [x]"
    by (cases q rule: rev_cases) auto
  from p have "butlast p = q" and "last p = y"
    by simp_all
  moreover from q have "last q = x"
    by simp
  ultimately have "x = CHR ''/''" and "y = CHR ''.''"
    using a b by simp_all
  with p q have "p = q' @ CHR ''/'' # ''.''"
    by simp
  then have "split_path p = split_path q' @ split_path ''.''"
    by (simp only: split_path_sep)
  then show ?thesis by simp
qed

lemma name_not_endsWithDot: "name_elem (last (split_path p)) \<Longrightarrow> \<not> endsWithDot p"
  using endsWithDot_last [of p] by (auto simp add: name_elem_def)

lemma json_not_endsWithDot: "\<not> endsWithDot (p @ ''.json'')"
  by (auto simp add: endsWithDot_def)

lemma resolve_name:
  assumes "name_elem (last (split_path p))" and "resolve fs p = Inr k"
  shows "k \<noteq> []"
proof -
  from assms(2) have "walk fs (start_dir fs p) (butlast (split_path p) @ [last (split_path p)])
      = Inr k"
    by (simp add: resolve_def split: if_splits)
  from walk_snoc_name [OF assms(1) this] show ?thesis by auto
qed

lemma os_RemoveAll_file:
  assumes "resolve fs p = Inr k" and "lookup fs k = Some (File b)" and "\<not> endsWithDot p"
  shows "os_RemoveAll fs p = (None, remove_one fs k)"
proof -
  from assms(1) have "p \<noteq> []" by (auto simp add: resolve_def)
  with assms show ?thesis by (simp add: os_RemoveAll_def)
qed

lemma os_RemoveAll_dir:
  assumes "resolve fs p = Inr k" and "lookup fs k = Some Dir"
    and "name_elem (last (split_path p))"
  shows "os_RemoveAll fs p = (None, remove_tree fs k)"
proof -
  from assms(1) have "p \<noteq> []" by (auto simp add: resolve_def)
  moreover from assms(3) have "\<not> endsWithDot p" by (rule name_not_endsWithDot)
  moreover from assms(3,1) have "k \<noteq> []" by (rule resolve_name)
  moreover from assms(3) have "last (split_path p) \<noteq> ''..''" by (simp add: name_elem_def)
  ultimately show ?thesis using assms(1,2) by (simp add: os_RemoveAll_def)
qed

lemma os_RemoveAll_missing:
  "os_Stat fs p = Inl (PathError ''stat'' p ENOENT) \<Longrightarrow> \<not> endsWithDot p \<Longrightarrow>
   os_RemoveAll fs p = (None, fs)"
  by (auto simp add: os_RemoveAll_def os_Stat_def split: sum.splits option.splits entry.splits)

lemma os_Stat_dir:
  "os_Stat fs p = Inr ModeDir \<Longrightarrow> \<exists>k. resolve fs p = Inr k \<and> lookup fs k = Some Dir"
  by (auto simp add: os_Stat_def split: sum.splits option.splits entry.splits)

lemma os_Stat_regular:
  "os_Stat fs p = Inr ModeRegular \<Longrightarrow> \<exists>k b. resolve fs p = Inr k \<and> lookup fs k = Some (File b)"
  by (auto simp add: os_Stat_def split: sum.splits option.splits entry.splits)

lemma stat_first: "os_Stat fs p = Inr m \<Longrightarrow> stat fs p = Inr m"
  by (simp add: stat_def)

lemma stat_second:
  "os_Stat fs p = Inl (PathError ''stat'' p ENOENT) \<Longrightarrow> stat fs p = os_Stat fs (p @ ''.json'')"
  by (simp add: stat_def)

lemma Delete_locked:
  "fst (Delete d fs c r) = fst (delete_locked (dir d) fs (Join [c, r])) \<and>
   snd (snd (Delete d fs c r)) = snd (delete_locked (dir d) fs (Join [c, r]))"
proof -
  obtain m d1 where g: "GetOrCreateMutex d c = (m, d1)"
    by (cases "GetOrCreateMutex d c")
  then have "dir d1 = dir d"
    using GetOrCreateMutex_dir [of d c] by simp
  with g show ?thesis
    by (simp add: Delete_def Let_def split: prod.splits)
qed

lemma delete_locked_dir:
  assumes "os_Stat fs (Join [root, path]) = Inr ModeDir"
    and "name_elem (last (split_path (Join [root, path])))"
  shows "\<exists>k. resolve fs (Join [root, path]) = Inr k \<and> k \<noteq> [] \<and>
           delete_locked root fs path = (None, remove_tree fs k)"
proof -
  from os_Stat_dir [OF assms(1)] obtain k where
    k: "resolve fs (Join [root, path]) = Inr k" "lookup fs k = Some Dir" by blast
  from k assms(2) have "os_RemoveAll fs (Join [root, path]) = (None, remove_tree fs k)"
    by (rule os_RemoveAll_dir)
  moreover from assms(2) k(1) have "k \<noteq> []" by (rule resolve_name)
  ultimately show ?thesis
    using k(1) stat_first [OF assms(1)] by (simp add: delete_locked_def Let_def)
qed

lemma delete_locked_file:
  assumes "os_Stat fs (Join [root, path]) \<noteq> Inr ModeDir"
    and "os_Stat fs (Join [root, path] @ ''.json'') = Inr ModeRegular"
  shows "\<exists>k. resolve fs (Join [root, path] @ ''.json'') = Inr k \<and> k \<noteq> [] \<and>
           delete_locked root fs path = (None, remove_one fs k)"
proof -
  let ?dir = "Join [root, path]"
  from os_Stat_regular [OF assms(2)] obtain k b where
    k: "resolve fs (?dir @ ''.json'') = Inr k" "lookup fs k = Some (File b)" by blast
  then have ne: "k \<noteq> []" by auto
  from k have rm: "os_RemoveAll fs (?dir @ ''.json'') = (None, remove_one fs k)"
    by (rule os_RemoveAll_file) (rule json_not_endsWithDot)
  have st: "stat fs ?dir = Inr ModeRegular"
  proof (cases "?dir = []")
    case True
    with assms(2) show ?thesis by (simp add: stat_def os_Stat_empty)
  next
    case False
    from k(1) have "\<exists>k'. resolve fs ?dir = Inr k'"
      by (rule resolve_suffix_parent) (simp_all add: noslash_def False)
    then obtain k' where "resolve fs ?dir = Inr k'" ..
    from os_Stat_cases [OF this] show ?thesis
    proof
      assume "\<exists>m. os_Stat fs ?dir = Inr m"
      then obtain m where m: "os_Stat fs ?dir = Inr m" ..
      with assms(1) have "m = ModeRegular" by (cases m) auto
      with m show ?thesis by (simp add: stat_def)
    next
      assume "os_Stat fs ?dir = Inl (PathError ''stat'' ?dir ENOENT)"
      with assms(2) show ?thesis by (simp add: stat_def)
    qed
  qed
  with rm k(1) ne show ?thesis by (simp add: delete_locked_def Let_def)
qed

lemma delete_locked_missing:
  assumes "stat fs (Join [root, path]) = Inl e"
  shows "delete_locked root fs path =
           (Some (Errorf (''unable to find file or directory named '' @ path @ [newline])), fs)"
  using assms by (simp add: delete_locked_def Let_def)

lemma NotFoundError_Delete:
  "NotFoundError (Errorf (''unable to find file or directory named '' @ path @ [newline]))"
  by (simp add: NotFoundError_def)

lemma Delete_dir:
  assumes "os_Stat fs (Join [dir d, Join [c, r]]) = Inr ModeDir"
    and "name_elem (last (split_path (Join [dir d, Join [c, r]])))"
  shows "fst (Delete d fs c r) = None \<and>
         (\<exists>k. resolve fs (Join [dir d, Join [c, r]]) = Inr k \<and>
            (\<forall>q. lookup (snd (snd (Delete d fs c r))) q =
                   (if prefix k q then None else lookup fs q)))"
proof -
  from delete_locked_dir [OF assms] obtain k where
    k: "resolve fs (Join [dir d, Join [c, r]]) = Inr k" "k \<noteq> []"
    "delete_locked (dir d) fs (Join [c, r]) = (None, remove_tree fs k)" by blast
  from k(2) have "\<forall>q. lookup (remove_tree fs k) q = (if prefix k q then None else lookup fs q)"
    by (auto simp add: lookup_remove_tree)
  with k(1,3) show ?thesis by (auto simp add: Delete_locked)
qed

lemma Delete_file:
  assumes "os_Stat fs (Join [dir d, Join [c, r]]) \<noteq> Inr ModeDir"
    and "os_Stat fs (Join [dir d, Join [c, r]] @ ''.json'') = Inr ModeRegular"
  shows "fst (Delete d fs c r) = None \<and>
         (\<exists>k. resolve fs (Join [dir d, Join [c, r]] @ ''.json'') = Inr k \<and>
            (\<forall>q. lookup (snd (snd (Delete d fs c r))) q =
                   (if q = k then None else lookup fs q)))"
proof -
  from delete_locked_file [OF assms] obtain k where
    k: "resolve fs (Join [dir d, Join [c, r]] @ ''.json'') = Inr k" "k \<noteq> []"
    "delete_locked (dir d) fs (Join [c, r]) = (None, remove_one fs k)" by blast
  from k(2) have "\<forall>q. lookup (remove_one fs k) q = (if q = k then None else lookup fs q)"
    by (auto simp add: lookup_remove_one)
  with k(1,3) show ?thesis by (auto simp add: Delete_locked)
qed

lemma Delete_missing:
  assumes "stat fs (Join [dir d, Join [c, r]]) = Inl e"
  shows "(\<exists>err. fst (Delete d fs c r) = Some err \<and> NotFoundError err) \<and>
         snd (snd (Delete d fs c r)) = fs"
  using delete_locked_missing [OF assms] NotFoundError_Delete [of "Join [c, r]"]
  by (simp add: Delete_locked)

lemma Join_nil_nil: "Join [[], []] = []"
  by (simp add: Join_def)

lemma Join_root_nil: "root \<noteq> [] \<Longrightarrow> Join [root, []] = Clean root"
  by (simp add: Join2 Clean_trailing_sep)

lemma Delete_path_collection:
  "c \<noteq> [] \<Longrightarrow> \<not> rooted c \<Longrightarrow> Join [root, Join [c, []]] = Join [root, c]"
  by (simp add: delete_path_eq_read_path Join_empty_resource)

section \<open>Listing a directory\<close>





lemma split_path_rooted: "split_path (CHR ''/'' # s) = [] # split_path s"
  by simp











section \<open>\<open>Write\<close>: what is committed, and what a failure leaves\<close>

text \<open>
  C7. After a successful \<open>Write(collection, resource, value)\<close> the final path
  \<open>Join(Join(root, collection), resource + ".json")\<close> is a regular file, and its content is
  the output of \<open>MarshalIndent\<close> for the value followed by one newline, and nothing else.
\<close>

theorem Write_commits_serialization:
  assumes "fst (Write J d fs c r v) = None"
  shows "\<exists>b. MarshalIndent J v = Some b \<and>
           os_ReadFile (snd (snd (Write J d fs c r v))) (Join [Join [dir d, c], r @ ''.json'']) =
             Inr (b @ [newline])"
  using Write_fst_ok(3) [OF assms] by (rule write_locked_ok)

theorem Write_commits_serialization_witness:
  "fst (Write demo_json demo_driver demo_fs ''users'' ''John'' True) = None \<and>
   (\<exists>b. MarshalIndent demo_json True = Some b \<and>
      os_ReadFile (snd (snd (Write demo_json demo_driver demo_fs ''users'' ''John'' True)))
        (Join [Join [dir demo_driver, ''users''], ''John'' @ ''.json'']) = Inr (b @ [newline]))"
proof -
  have h: "fst (Write demo_json demo_driver demo_fs ''users'' ''John'' True) = None"
    by code_simp
  from h Write_commits_serialization [OF h] show ?thesis by blast
qed

text \<open>
  C4. When \<open>Write\<close> fails before the rename (in the validation, in \<open>MkdirAll\<close>, in the
  serializer or in writing the temporary file, also when that write stops midway and leaves
  a part of the data), a file that was at the final path is still there with the content it
  had.
\<close>

theorem failed_Write_keeps_committed:
  assumes "fst (Write J d fs c r v) = Some e" and "\<not> rename_failed e"
    and "os_ReadFile fs (Join [Join [dir d, c], r @ ''.json'']) = Inr old"
  shows "os_ReadFile (snd (snd (Write J d fs c r v))) (Join [Join [dir d, c], r @ ''.json'']) =
           Inr old"
  using assms by (rule Write_fail_final)

text \<open>
  On the device with eight bytes \<open>Write("users", "John", false)\<close> stores three of the six
  bytes in \<open>users/John.json.tmp\<close> and fails; with a directory in the place of the temporary
  file it fails in the open. The record of John is as it was in both.
\<close>

theorem failed_Write_keeps_committed_witness:
  "fst (Write demo_json demo_driver1 demo_fs8 ''users'' ''John'' False) =
     Some (PathError ''write'' ''users/John.json.tmp'' ENOSPC) \<and>
   \<not> rename_failed (PathError ''write'' ''users/John.json.tmp'' ENOSPC) \<and>
   os_ReadFile demo_fs8 (Join [Join [dir demo_driver1, ''users''], ''John'' @ ''.json'']) =
     Inr ''true\<newline>'' \<and>
   os_ReadFile (snd (snd (Write demo_json demo_driver1 demo_fs8 ''users'' ''John'' False)))
     ''users/John.json.tmp'' = Inr ''fal'' \<and>
   os_ReadFile (snd (snd (Write demo_json demo_driver1 demo_fs8 ''users'' ''John'' False)))
     (Join [Join [dir demo_driver1, ''users''], ''John'' @ ''.json'']) = Inr ''true\<newline>'' \<and>
   fst (Write demo_json demo_driver1 demo_fs3 ''users'' ''John'' False) =
     Some (PathError ''open'' ''users/John.json.tmp'' EISDIR) \<and>
   \<not> rename_failed (PathError ''open'' ''users/John.json.tmp'' EISDIR) \<and>
   os_ReadFile demo_fs3 (Join [Join [dir demo_driver1, ''users''], ''John'' @ ''.json'']) =
     Inr ''true\<newline>'' \<and>
   os_ReadFile (snd (snd (Write demo_json demo_driver1 demo_fs3 ''users'' ''John'' False)))
     (Join [Join [dir demo_driver1, ''users''], ''John'' @ ''.json'']) = Inr ''true\<newline>''"
proof -
  have a1: "fst (Write demo_json demo_driver1 demo_fs8 ''users'' ''John'' False) =
      Some (PathError ''write'' ''users/John.json.tmp'' ENOSPC)"
    by code_simp
  have a2: "\<not> rename_failed (PathError ''write'' ''users/John.json.tmp'' ENOSPC)"
    by (simp add: rename_failed_def)
  have a3: "os_ReadFile demo_fs8 (Join [Join [dir demo_driver1, ''users''], ''John'' @ ''.json'']) =
      Inr ''true\<newline>''"
    by code_simp
  have a4: "os_ReadFile (snd (snd (Write demo_json demo_driver1 demo_fs8 ''users'' ''John'' False)))
      ''users/John.json.tmp'' = Inr ''fal''"
    by code_simp
  have h1: "fst (Write demo_json demo_driver1 demo_fs3 ''users'' ''John'' False) =
      Some (PathError ''open'' ''users/John.json.tmp'' EISDIR)"
    by code_simp
  have h2: "\<not> rename_failed (PathError ''open'' ''users/John.json.tmp'' EISDIR)"
    by (simp add: rename_failed_def)
  have h3: "os_ReadFile demo_fs3 (Join [Join [dir demo_driver1, ''users''], ''John'' @ ''.json'']) =
      Inr ''true\<newline>''"
    by code_simp
  from a1 a2 a3 a4 h1 h2 h3 failed_Write_keeps_committed [OF a1 a2 a3]
    failed_Write_keeps_committed [OF h1 h2 h3]
  show ?thesis by blast
qed

section \<open>\<open>Write\<close> followed by \<open>Read\<close>\<close>

text \<open>
  C3, as the code has it. \<open>Write\<close> appends \<open>.json\<close> to the resource before it joins the
  path, \<open>Read\<close> after it; the two paths are the same when the last element of the resource
  is a name (the resource does not end in \<open>/\<close>, and its last element is not \<open>.\<close> or \<open>..\<close>).
  For such a resource, and a value that \<open>Unmarshal\<close> decodes from what \<open>MarshalIndent\<close>
  gives for it, a successful \<open>Write\<close> followed by \<open>Read\<close> of the same collection and resource
  returns the value.
\<close>

theorem Write_then_Read:
  assumes "fst (Write J d fs c r v) = None"
    and "name_elem (last (split_path r))"
    and "\<forall>b. MarshalIndent J v = Some b \<longrightarrow> Unmarshal J (b @ [newline]) out = Some v"
  shows "Read J (fst (snd (Write J d fs c r v))) (snd (snd (Write J d fs c r v))) c r out = Inr v"
proof -
  let ?d' = "fst (snd (Write J d fs c r v))"
  let ?fs' = "snd (snd (Write J d fs c r v))"
  note ok = Write_fst_ok [OF assms(1)]
  from write_locked_ok [OF ok(3)] obtain b where
    b: "MarshalIndent J v = Some b"
    "os_ReadFile ?fs' (Join [Join [dir d, c], r @ ''.json'']) = Inr (b @ [newline])"
    by blast
  have "Join [Join [dir d, c], r @ ''.json''] = Join [dir d, c, r] @ ''.json''"
    using ok(1) assms(2) by (rule write_path_eq_read_path)
  with b(2) have "os_ReadFile ?fs' (Join [dir ?d', c, r] @ ''.json'') = Inr (b @ [newline])"
    by (simp add: Write_dir)
  with ok(1,2) have "Read J ?d' ?fs' c r out =
      (case Unmarshal J (b @ [newline]) out of None \<Rightarrow> Inl UnmarshalError | Some v \<Rightarrow> Inr v)"
    by (rule Read_stored)
  with assms(3) b(1) show ?thesis by simp
qed

theorem Write_then_Read_witness:
  "fst (Write demo_json demo_driver demo_fs ''users'' ''John'' True) = None \<and>
   name_elem (last (split_path ''John'')) \<and>
   Read demo_json (fst (snd (Write demo_json demo_driver demo_fs ''users'' ''John'' True)))
     (snd (snd (Write demo_json demo_driver demo_fs ''users'' ''John'' True)))
     ''users'' ''John'' False = Inr True"
proof -
  have h1: "fst (Write demo_json demo_driver demo_fs ''users'' ''John'' True) = None"
    by code_simp
  have h2: "name_elem (last (split_path ''John''))"
    by code_simp
  have h3: "\<forall>b. MarshalIndent demo_json True = Some b \<longrightarrow>
      Unmarshal demo_json (b @ [newline]) False = Some True"
    by (simp add: demo_json_def)
  from h1 h2 Write_then_Read [OF h1 h2 h3] show ?thesis by blast
qed

text \<open>
  The resource \<open>.\<close>: \<open>Write("users", ".", true)\<close> succeeds and commits the file
  \<open>users/..json\<close>; \<open>Read("users", ".")\<close> finds the directory \<open>users\<close> and then opens
  \<open>users.json\<close>, which does not exist.
\<close>

theorem Write_then_Read_dot_counterexample:
  "fst (Write demo_json demo_driver demo_fs ''users'' ''.'' True) = None \<and>
   Unmarshal demo_json (the (MarshalIndent demo_json True) @ [newline]) False = Some True \<and>
   Read demo_json (fst (snd (Write demo_json demo_driver demo_fs ''users'' ''.'' True)))
     (snd (snd (Write demo_json demo_driver demo_fs ''users'' ''.'' True)))
     ''users'' ''.'' False = Inl (PathError ''open'' ''users.json'' ENOENT)"
  by code_simp

section \<open>Bare and extension-bearing resource names\<close>

text \<open>
  C2, as the code has it. A resource stored as the file \<open>Join(root, collection, name)\<close>
  followed by \<open>.json\<close> is read by \<open>Read\<close> under the bare name: the result is what
  \<open>Unmarshal\<close> makes of the content. \<open>Delete\<close> under the bare name removes that file and
  nothing else, when the collection does not start with \<open>/\<close> and the bare path is not a
  directory. Both always append \<open>.json\<close> to the name they are given, so the name with
  the extension names another file.
\<close>

theorem bare_name_Read_Delete:
  assumes "c \<noteq> []" and "r \<noteq> []"
    and "os_ReadFile fs (Join [dir d, c, r] @ ''.json'') = Inr b"
  shows "Read J d fs c r out =
           (case Unmarshal J b out of None \<Rightarrow> Inl UnmarshalError | Some v \<Rightarrow> Inr v) \<and>
         (\<not> rooted c \<and> os_Stat fs (Join [dir d, c, r]) \<noteq> Inr ModeDir \<longrightarrow>
            fst (Delete d fs c r) = None \<and>
            (\<exists>k. resolve fs (Join [dir d, c, r] @ ''.json'') = Inr k \<and>
               (\<forall>q. lookup (snd (snd (Delete d fs c r))) q =
                      (if q = k then None else lookup fs q))))"
proof (intro conjI impI)
  show "Read J d fs c r out =
      (case Unmarshal J b out of None \<Rightarrow> Inl UnmarshalError | Some v \<Rightarrow> Inr v)"
    using assms by (rule Read_stored)
next
  assume a: "\<not> rooted c \<and> os_Stat fs (Join [dir d, c, r]) \<noteq> Inr ModeDir"
  with assms(1) have p: "Join [dir d, Join [c, r]] = Join [dir d, c, r]"
    by (simp add: delete_path_eq_read_path)
  from os_ReadFile_Stat [OF assms(3)] a p Delete_file [of fs d c r]
  show "fst (Delete d fs c r) = None"
    and "\<exists>k. resolve fs (Join [dir d, c, r] @ ''.json'') = Inr k \<and>
         (\<forall>q. lookup (snd (snd (Delete d fs c r))) q =
                (if q = k then None else lookup fs q))"
    by simp_all
qed

theorem bare_name_Read_Delete_witness:
  "''users'' \<noteq> [] \<and> ''John'' \<noteq> [] \<and>
   os_ReadFile demo_fs1 (Join [dir demo_driver, ''users'', ''John''] @ ''.json'') =
     Inr ''true\<newline>'' \<and>
   \<not> rooted ''users'' \<and>
   os_Stat demo_fs1 (Join [dir demo_driver, ''users'', ''John'']) \<noteq> Inr ModeDir \<and>
   Read demo_json demo_driver demo_fs1 ''users'' ''John'' False = Inr True \<and>
   fst (Delete demo_driver demo_fs1 ''users'' ''John'') = None \<and>
   lookup (snd (snd (Delete demo_driver demo_fs1 ''users'' ''John'')))
     [''home'', ''app'', ''users'', ''John.json''] = None \<and>
   lookup (snd (snd (Delete demo_driver demo_fs1 ''users'' ''John'')))
     [''home'', ''app'', ''users''] = Some Dir"
proof -
  have h1: "''users'' \<noteq> []" and h2: "''John'' \<noteq> []" by simp_all
  have h3: "os_ReadFile demo_fs1 (Join [dir demo_driver, ''users'', ''John''] @ ''.json'') =
      Inr ''true\<newline>''"
    by code_simp
  have h4: "\<not> rooted ''users''" by code_simp
  have h5: "os_Stat demo_fs1 (Join [dir demo_driver, ''users'', ''John'']) \<noteq> Inr ModeDir"
    by code_simp
  have k: "resolve demo_fs1 (Join [dir demo_driver, ''users'', ''John''] @ ''.json'') =
      Inr [''home'', ''app'', ''users'', ''John.json'']"
    by code_simp
  have u: "Unmarshal demo_json ''true\<newline>'' False = Some True"
    by code_simp
  have l: "lookup demo_fs1 [''home'', ''app'', ''users''] = Some Dir"
    by code_simp
  from bare_name_Read_Delete [OF h1 h2 h3, of demo_json False] h4 h5 k u l
  show ?thesis
    using h3 by auto
qed

text \<open>
  The name \<open>John.json\<close> for the record of John: \<open>Read\<close> opens \<open>users/John.json.json\<close> and
  fails, \<open>Delete\<close> returns no error and removes nothing. With a directory \<open>users/John\<close>
  beside the record, \<open>Delete("users", "John")\<close> removes the directory and the record stays.
  For the collection \<open>/../x\<close>, \<open>Delete\<close> looks in another directory than \<open>Read\<close>.
\<close>

theorem extension_name_counterexample:
  "os_ReadFile demo_fs1 ''users/John.json'' = Inr ''true\<newline>'' \<and>
   Read demo_json demo_driver demo_fs1 ''users'' ''John.json'' False =
     Inl (PathError ''open'' ''users/John.json.json'' ENOENT) \<and>
   fst (Delete demo_driver demo_fs1 ''users'' ''John.json'') = None \<and>
   snd (snd (Delete demo_driver demo_fs1 ''users'' ''John.json'')) = demo_fs1 \<and>
   os_ReadFile demo_fs4 ''users/John.json'' = Inr ''true\<newline>'' \<and>
   fst (Delete demo_driver demo_fs4 ''users'' ''John'') = None \<and>
   os_ReadFile (snd (snd (Delete demo_driver demo_fs4 ''users'' ''John''))) ''users/John.json'' =
     Inr ''true\<newline>'' \<and>
   os_ReadFile demo_fs5 (Join [dir demo_driver, ''/../x'', ''a''] @ ''.json'') =
     Inr ''true\<newline>'' \<and>
   fst (Delete demo_driver demo_fs5 ''/../x'' ''a'') =
     Some (Errorf ''unable to find file or directory named /x/a\<newline>'') \<and>
   snd (snd (Delete demo_driver demo_fs5 ''/../x'' ''a'')) = demo_fs5"
  by code_simp

section \<open>The dispatch of \<open>Delete\<close>\<close>

text \<open>
  C5, as the code has it, for the path \<open>Join(root, Join(collection, resource))\<close>. When the
  path itself is a directory, named by a last element that is a name, \<open>Delete\<close> removes the
  directory and everything below it. When the path does not exist and the path with
  \<open>.json\<close> is a regular file, \<open>Delete\<close> removes that file and nothing else. When \<open>stat\<close>
  finds neither, \<open>Delete\<close> returns a not-found error and changes nothing.
\<close>

theorem Delete_dispatch:
  "(os_Stat fs (Join [dir d, Join [c, r]]) = Inr ModeDir \<and>
    name_elem (last (split_path (Join [dir d, Join [c, r]]))) \<longrightarrow>
      fst (Delete d fs c r) = None \<and>
      (\<exists>k. resolve fs (Join [dir d, Join [c, r]]) = Inr k \<and>
         (\<forall>q. lookup (snd (snd (Delete d fs c r))) q =
                (if prefix k q then None else lookup fs q)))) \<and>
   (os_Stat fs (Join [dir d, Join [c, r]]) =
      Inl (PathError ''stat'' (Join [dir d, Join [c, r]]) ENOENT) \<and>
    os_Stat fs (Join [dir d, Join [c, r]] @ ''.json'') = Inr ModeRegular \<longrightarrow>
      fst (Delete d fs c r) = None \<and>
      (\<exists>k. resolve fs (Join [dir d, Join [c, r]] @ ''.json'') = Inr k \<and>
         (\<forall>q. lookup (snd (snd (Delete d fs c r))) q =
                (if q = k then None else lookup fs q)))) \<and>
   ((\<exists>e. stat fs (Join [dir d, Join [c, r]]) = Inl e) \<longrightarrow>
      (\<exists>err. fst (Delete d fs c r) = Some err \<and> NotFoundError err) \<and>
      snd (snd (Delete d fs c r)) = fs)"
proof (intro conjI impI)
  assume a: "os_Stat fs (Join [dir d, Join [c, r]]) = Inr ModeDir \<and>
    name_elem (last (split_path (Join [dir d, Join [c, r]])))"
  from Delete_dir [of fs d c r] a
  show "fst (Delete d fs c r) = None"
    and "\<exists>k. resolve fs (Join [dir d, Join [c, r]]) = Inr k \<and>
         (\<forall>q. lookup (snd (snd (Delete d fs c r))) q =
                (if prefix k q then None else lookup fs q))"
    by simp_all
next
  assume a: "os_Stat fs (Join [dir d, Join [c, r]]) =
      Inl (PathError ''stat'' (Join [dir d, Join [c, r]]) ENOENT) \<and>
    os_Stat fs (Join [dir d, Join [c, r]] @ ''.json'') = Inr ModeRegular"
  then have "os_Stat fs (Join [dir d, Join [c, r]]) \<noteq> Inr ModeDir" by simp
  from Delete_file [OF this] a
  show "fst (Delete d fs c r) = None"
    and "\<exists>k. resolve fs (Join [dir d, Join [c, r]] @ ''.json'') = Inr k \<and>
         (\<forall>q. lookup (snd (snd (Delete d fs c r))) q =
                (if q = k then None else lookup fs q))"
    by simp_all
next
  assume "\<exists>e. stat fs (Join [dir d, Join [c, r]]) = Inl e"
  then obtain e where "stat fs (Join [dir d, Join [c, r]]) = Inl e" ..
  from Delete_missing [OF this]
  show "\<exists>err. fst (Delete d fs c r) = Some err \<and> NotFoundError err"
    and "snd (snd (Delete d fs c r)) = fs"
    by simp_all
qed

theorem Delete_dispatch_witness:
  "os_Stat demo_fs1 (Join [dir demo_driver, Join [''users'', []]]) = Inr ModeDir \<and>
   name_elem (last (split_path (Join [dir demo_driver, Join [''users'', []]]))) \<and>
   fst (Delete demo_driver demo_fs1 ''users'' []) = None \<and>
   lookup (snd (snd (Delete demo_driver demo_fs1 ''users'' [])))
     [''home'', ''app'', ''users'', ''John.json''] = None \<and>
   os_Stat demo_fs1 (Join [dir demo_driver, Join [''users'', ''John'']]) =
     Inl (PathError ''stat'' (Join [dir demo_driver, Join [''users'', ''John'']]) ENOENT) \<and>
   os_Stat demo_fs1 (Join [dir demo_driver, Join [''users'', ''John'']] @ ''.json'') =
     Inr ModeRegular \<and>
   fst (Delete demo_driver demo_fs1 ''users'' ''John'') = None \<and>
   lookup (snd (snd (Delete demo_driver demo_fs1 ''users'' ''John'')))
     [''home'', ''app'', ''users'', ''John.json''] = None \<and>
   stat demo_fs1 (Join [dir demo_driver, Join [''users'', ''Jim'']]) =
     Inl (PathError ''stat'' ''users/Jim.json'' ENOENT) \<and>
   NotFoundError (the (fst (Delete demo_driver demo_fs1 ''users'' ''Jim''))) \<and>
   snd (snd (Delete demo_driver demo_fs1 ''users'' ''Jim'')) = demo_fs1"
proof -
  have a1: "os_Stat demo_fs1 (Join [dir demo_driver, Join [''users'', []]]) = Inr ModeDir"
    by code_simp
  have a2: "name_elem (last (split_path (Join [dir demo_driver, Join [''users'', []]])))"
    by code_simp
  have a3: "resolve demo_fs1 (Join [dir demo_driver, Join [''users'', []]]) =
      Inr [''home'', ''app'', ''users'']"
    by code_simp
  have b1: "os_Stat demo_fs1 (Join [dir demo_driver, Join [''users'', ''John'']]) =
      Inl (PathError ''stat'' (Join [dir demo_driver, Join [''users'', ''John'']]) ENOENT)"
    by code_simp
  have b2: "os_Stat demo_fs1 (Join [dir demo_driver, Join [''users'', ''John'']] @ ''.json'') =
      Inr ModeRegular"
    by code_simp
  have b3: "resolve demo_fs1 (Join [dir demo_driver, Join [''users'', ''John'']] @ ''.json'') =
      Inr [''home'', ''app'', ''users'', ''John.json'']"
    by code_simp
  have c1: "stat demo_fs1 (Join [dir demo_driver, Join [''users'', ''Jim'']]) =
      Inl (PathError ''stat'' ''users/Jim.json'' ENOENT)"
    by code_simp
  have p: "prefix [''home'', ''app'', ''users''] [''home'', ''app'', ''users'', ''John.json'']"
    by simp
  from Delete_dispatch [of demo_fs1 demo_driver "''users''" "[]"] a1 a2 a3 p
  have r1: "fst (Delete demo_driver demo_fs1 ''users'' []) = None \<and>
      lookup (snd (snd (Delete demo_driver demo_fs1 ''users'' [])))
        [''home'', ''app'', ''users'', ''John.json''] = None"
    by auto
  from Delete_dispatch [of demo_fs1 demo_driver "''users''" "''John''"] b1 b2 b3
  have r2: "fst (Delete demo_driver demo_fs1 ''users'' ''John'') = None \<and>
      lookup (snd (snd (Delete demo_driver demo_fs1 ''users'' ''John'')))
        [''home'', ''app'', ''users'', ''John.json''] = None"
    by auto
  from Delete_dispatch [of demo_fs1 demo_driver "''users''" "''Jim''"] c1
  have r3: "NotFoundError (the (fst (Delete demo_driver demo_fs1 ''users'' ''Jim''))) \<and>
      snd (snd (Delete demo_driver demo_fs1 ''users'' ''Jim'')) = demo_fs1"
    by auto
  from a1 a2 b1 b2 c1 r1 r2 r3 show ?thesis by blast
qed

text \<open>
  Three targets that \<open>stat\<close> resolves and \<open>Delete\<close> does not remove: the directory
  \<open>orders.json\<close>, found by the second probe for \<open>Delete("orders", "")\<close>; the file
  \<open>users/John.json\<close>, found by the first probe for \<open>Delete("users", "John.json")\<close>; and the
  directory \<open>.\<close>, which \<open>RemoveAll\<close> refuses.
\<close>

theorem Delete_dispatch_counterexample:
  "stat demo_fs6 (Join [dir demo_driver, Join [''orders'', []]]) = Inr ModeDir \<and>
   fst (Delete demo_driver demo_fs6 ''orders'' []) = None \<and>
   snd (snd (Delete demo_driver demo_fs6 ''orders'' [])) = demo_fs6 \<and>
   stat demo_fs1 (Join [dir demo_driver, Join [''users'', ''John.json'']]) = Inr ModeRegular \<and>
   fst (Delete demo_driver demo_fs1 ''users'' ''John.json'') = None \<and>
   snd (snd (Delete demo_driver demo_fs1 ''users'' ''John.json'')) = demo_fs1 \<and>
   stat demo_fs1 (Join [dir demo_driver, Join [''.'', []]]) = Inr ModeDir \<and>
   fst (Delete demo_driver demo_fs1 ''.'' []) = Some (PathError ''RemoveAll'' ''.'' EINVAL) \<and>
   snd (snd (Delete demo_driver demo_fs1 ''.'' [])) = demo_fs1"
  by code_simp

section \<open>\<open>Delete\<close> with an empty resource\<close>

text \<open>
  C9, as the code has it. For a collection that does not start with \<open>/\<close> and whose
  directory \<open>Join(root, collection)\<close> exists and is named by a last element that is a name,
  \<open>Delete(collection, "")\<close> returns no error and removes the directory with everything in
  it. \<open>Delete("", "")\<close> does the same to the root directory of the database, when its cleaned
  path ends in a name.
\<close>

theorem Delete_empty_resource:
  "(c \<noteq> [] \<and> \<not> rooted c \<and> os_Stat fs (Join [dir d, c]) = Inr ModeDir \<and>
    name_elem (last (split_path (Join [dir d, c]))) \<longrightarrow>
      fst (Delete d fs c []) = None \<and>
      (\<exists>k. resolve fs (Join [dir d, c]) = Inr k \<and>
         (\<forall>q. lookup (snd (snd (Delete d fs c []))) q =
                (if prefix k q then None else lookup fs q)))) \<and>
   (dir d \<noteq> [] \<and> os_Stat fs (Clean (dir d)) = Inr ModeDir \<and>
    name_elem (last (split_path (Clean (dir d)))) \<longrightarrow>
      fst (Delete d fs [] []) = None \<and>
      (\<exists>k. resolve fs (Clean (dir d)) = Inr k \<and>
         (\<forall>q. lookup (snd (snd (Delete d fs [] []))) q =
                (if prefix k q then None else lookup fs q))))"
proof (intro conjI impI)
  assume a: "c \<noteq> [] \<and> \<not> rooted c \<and> os_Stat fs (Join [dir d, c]) = Inr ModeDir \<and>
    name_elem (last (split_path (Join [dir d, c])))"
  then have p: "Join [dir d, Join [c, []]] = Join [dir d, c]"
    by (simp add: Delete_path_collection)
  from a p Delete_dir [of fs d c "[]"]
  show "fst (Delete d fs c []) = None"
    and "\<exists>k. resolve fs (Join [dir d, c]) = Inr k \<and>
         (\<forall>q. lookup (snd (snd (Delete d fs c []))) q =
                (if prefix k q then None else lookup fs q))"
    by simp_all
next
  assume a: "dir d \<noteq> [] \<and> os_Stat fs (Clean (dir d)) = Inr ModeDir \<and>
    name_elem (last (split_path (Clean (dir d))))"
  then have p: "Join [dir d, Join [[], []]] = Clean (dir d)"
    by (simp add: Join_nil_nil Join_root_nil)
  from a p Delete_dir [of fs d "[]" "[]"]
  show "fst (Delete d fs [] []) = None"
    and "\<exists>k. resolve fs (Clean (dir d)) = Inr k \<and>
         (\<forall>q. lookup (snd (snd (Delete d fs [] []))) q =
                (if prefix k q then None else lookup fs q))"
    by simp_all
qed

theorem Delete_empty_resource_witness:
  "''users'' \<noteq> [] \<and> \<not> rooted ''users'' \<and>
   os_Stat demo_fs1 (Join [dir demo_driver, ''users'']) = Inr ModeDir \<and>
   name_elem (last (split_path (Join [dir demo_driver, ''users'']))) \<and>
   fst (Delete demo_driver demo_fs1 ''users'' []) = None \<and>
   lookup (snd (snd (Delete demo_driver demo_fs1 ''users'' []))) [''home'', ''app'', ''users'']
     = None \<and>
   lookup (snd (snd (Delete demo_driver demo_fs1 ''users'' [])))
     [''home'', ''app'', ''users'', ''John.json''] = None \<and>
   dir demo_db_driver \<noteq> [] \<and>
   os_Stat demo_db_fs (Clean (dir demo_db_driver)) = Inr ModeDir \<and>
   name_elem (last (split_path (Clean (dir demo_db_driver)))) \<and>
   fst (Delete demo_db_driver demo_db_fs [] []) = None \<and>
   lookup (snd (snd (Delete demo_db_driver demo_db_fs [] []))) [''home'', ''app'', ''db''] = None \<and>
   lookup (snd (snd (Delete demo_db_driver demo_db_fs [] [])))
     [''home'', ''app'', ''db'', ''users'', ''John.json''] = None"
proof -
  have a1: "''users'' \<noteq> []" by simp
  have a2: "\<not> rooted ''users''" by code_simp
  have a3: "os_Stat demo_fs1 (Join [dir demo_driver, ''users'']) = Inr ModeDir" by code_simp
  have a4: "name_elem (last (split_path (Join [dir demo_driver, ''users''])))" by code_simp
  have a5: "resolve demo_fs1 (Join [dir demo_driver, ''users'']) = Inr [''home'', ''app'', ''users'']"
    by code_simp
  have b1: "dir demo_db_driver \<noteq> []" by code_simp
  have b2: "os_Stat demo_db_fs (Clean (dir demo_db_driver)) = Inr ModeDir" by code_simp
  have b3: "name_elem (last (split_path (Clean (dir demo_db_driver))))" by code_simp
  have b4: "resolve demo_db_fs (Clean (dir demo_db_driver)) = Inr [''home'', ''app'', ''db'']"
    by code_simp
  from Delete_empty_resource [of "''users''" demo_fs1 demo_driver] a1 a2 a3 a4 a5
  have r1: "fst (Delete demo_driver demo_fs1 ''users'' []) = None \<and>
      lookup (snd (snd (Delete demo_driver demo_fs1 ''users'' []))) [''home'', ''app'', ''users'']
        = None \<and>
      lookup (snd (snd (Delete demo_driver demo_fs1 ''users'' [])))
        [''home'', ''app'', ''users'', ''John.json''] = None"
    by auto
  from Delete_empty_resource [of "''users''" demo_db_fs demo_db_driver] b1 b2 b3 b4
  have r2: "fst (Delete demo_db_driver demo_db_fs [] []) = None \<and>
      lookup (snd (snd (Delete demo_db_driver demo_db_fs [] []))) [''home'', ''app'', ''db'']
        = None \<and>
      lookup (snd (snd (Delete demo_db_driver demo_db_fs [] [])))
        [''home'', ''app'', ''db'', ''users'', ''John.json''] = None"
    by auto
  from a1 a2 a3 a4 b1 b2 b3 r1 r2 show ?thesis by blast
qed

text \<open>
  The database of \<open>main\<close> has the root \<open>.\<close>: \<open>Delete("", "")\<close> fails with \<open>EINVAL\<close> and
  removes nothing. The collection \<open>/../x\<close> has the directory \<open>../x\<close>, but
  \<open>Delete("/../x", "")\<close> looks for \<open>x\<close> and reports that it is not found.
\<close>

theorem Delete_empty_resource_counterexample:
  "os_Stat demo_fs1 (dir demo_driver) = Inr ModeDir \<and>
   fst (Delete demo_driver demo_fs1 [] []) = Some (PathError ''RemoveAll'' ''.'' EINVAL) \<and>
   snd (snd (Delete demo_driver demo_fs1 [] [])) = demo_fs1 \<and>
   os_Stat demo_fs5 (Join [dir demo_driver, ''/../x'']) = Inr ModeDir \<and>
   fst (Delete demo_driver demo_fs5 ''/../x'' []) =
     Some (Errorf ''unable to find file or directory named /x\<newline>'') \<and>
   snd (snd (Delete demo_driver demo_fs5 ''/../x'' [])) = demo_fs5"
  by code_simp

section \<open>\<open>ReadAll\<close> on a collection\<close>




end
